theory Spec2Isabelle
  imports Complex_Main "HOL-Library.AList"
begin

section \<open>Parsed JSON documents\<close>

text \<open>
  The value \<^verbatim>\<open>JSON.parse\<close> returns. An object is the list of its own properties in the
  order \<^verbatim>\<open>Object.entries\<close> enumerates them; an array is the list of its elements. A
  number is carried as a rational: the flattener only tests it for being zero.
\<close>

datatype json = JNull | JBool bool | JNum rat | JStr string
  | JArr "json list" | JObj "(string \<times> json) list"

text \<open>The test \<^verbatim>\<open>!current\<close>: the values JavaScript converts to false.\<close>

fun falsy :: "json \<Rightarrow> bool" where
  "falsy JNull = True"
| "falsy (JBool b) = (\<not> b)"
| "falsy (JNum n) = (n = 0)"
| "falsy (JStr s) = (s = [])"
| "falsy (JArr xs) = False"
| "falsy (JObj es) = False"

text \<open>The decimal text of an array index, as the template literal \<^verbatim>\<open>`${index}`\<close> gives it.\<close>

function toString :: "nat \<Rightarrow> string" where
  "toString n = (if n < 10 then [''0123456789'' ! n]
                 else toString (n div 10) @ [''0123456789'' ! (n mod 10)])"
  by pat_completeness auto
termination
  by (relation "measure id") auto

declare toString.simps [simp del]

section \<open>The flattener: \<^verbatim>\<open>extractTranslationData\<close>\<close>

text \<open>
  The pair of the local variables \<^verbatim>\<open>keys\<close> (an array, grown by \<^verbatim>\<open>push\<close>) and
  \<^verbatim>\<open>values\<close> (a \<^verbatim>\<open>Map\<close>, modelled as an association list in insertion order:
  \<^verbatim>\<open>set\<close> on a key already there replaces its value in place, on a new key appends).
\<close>

type_synonym extracted = "string list \<times> (string \<times> string) list"

text \<open>\<^verbatim>\<open>newPrefix\<close> of an array element and of an object property.\<close>

definition newPrefix_index :: "string \<Rightarrow> nat \<Rightarrow> string" where
  "newPrefix_index currentPrefix index =
     (if currentPrefix \<noteq> [] then currentPrefix @ ''['' @ toString index @ '']''
      else toString index)"

definition newPrefix_key :: "string \<Rightarrow> string \<Rightarrow> string" where
  "newPrefix_key currentPrefix key =
     (if currentPrefix \<noteq> [] then currentPrefix @ ''.'' @ key else key)"

text \<open>
  The inner function \<^verbatim>\<open>traverse\<close>, with the two \<^verbatim>\<open>forEach\<close> loops as recursion over the
  remaining elements. The accumulator is threaded through every call.
\<close>

function traverse :: "json \<Rightarrow> string \<Rightarrow> extracted \<Rightarrow> extracted"
  and forEach_item :: "json list \<Rightarrow> nat \<Rightarrow> string \<Rightarrow> extracted \<Rightarrow> extracted"
  and forEach_entry :: "(string \<times> json) list \<Rightarrow> string \<Rightarrow> extracted \<Rightarrow> extracted"
where
  "traverse current currentPrefix acc =
     (if falsy current then acc
      else case current of
          JArr items \<Rightarrow> forEach_item items 0 currentPrefix acc
        | JObj entries \<Rightarrow> forEach_entry entries currentPrefix acc
        | JStr s \<Rightarrow> (fst acc @ [currentPrefix], AList.update currentPrefix s (snd acc))
        | _ \<Rightarrow> acc)"
| "forEach_item [] index currentPrefix acc = acc"
| "forEach_item (item # rest) index currentPrefix acc =
     forEach_item rest (Suc index) currentPrefix
       (traverse item (newPrefix_index currentPrefix index) acc)"
| "forEach_entry [] currentPrefix acc = acc"
| "forEach_entry ((key, v) # rest) currentPrefix acc =
     forEach_entry rest currentPrefix
       (traverse v (newPrefix_key currentPrefix key) acc)"
  by pat_completeness auto
termination
  by (relation "measure (\<lambda>x. case x of
        Inl (j, _) \<Rightarrow> size j
      | Inr (Inl (js, _)) \<Rightarrow> size_list size js
      | Inr (Inr (es, _)) \<Rightarrow> size_list (size_prod (\<lambda>x. 0) size) es)") auto

definition extractTranslationData :: "json \<Rightarrow> string \<Rightarrow> extracted" where
  "extractTranslationData obj prefix = traverse obj prefix ([], [])"

subsection \<open>The flattener as the specification words it\<close>

text \<open>
  The entries the specification's traversal records, in depth-first order: a string leaf
  records its prefix and value, an object property is visited under
  \<open>p ? p + "." + k : k\<close>, an array element under \<open>p + "[" + i + "]"\<close> (or \<open>i\<close> when
  \<open>p\<close> is empty), and every other leaf records nothing.
\<close>

function spec_flatten :: "json \<Rightarrow> string \<Rightarrow> (string \<times> string) list"
  and spec_flatten_items :: "json list \<Rightarrow> nat \<Rightarrow> string \<Rightarrow> (string \<times> string) list"
  and spec_flatten_props :: "(string \<times> json) list \<Rightarrow> string \<Rightarrow> (string \<times> string) list"
where
  "spec_flatten (JStr s) p = [(p, s)]"
| "spec_flatten (JArr xs) p = spec_flatten_items xs 0 p"
| "spec_flatten (JObj ps) p = spec_flatten_props ps p"
| "spec_flatten JNull p = []"
| "spec_flatten (JBool b) p = []"
| "spec_flatten (JNum n) p = []"
| "spec_flatten_items [] i p = []"
| "spec_flatten_items (x # xs) i p =
     spec_flatten x (if p = [] then toString i else p @ ''['' @ toString i @ '']'')
       @ spec_flatten_items xs (Suc i) p"
| "spec_flatten_props [] p = []"
| "spec_flatten_props ((k, v) # ps) p =
     spec_flatten v (if p = [] then k else p @ ''.'' @ k) @ spec_flatten_props ps p"
  by pat_completeness auto
termination
  by (relation "measure (\<lambda>x. case x of
        Inl (j, _) \<Rightarrow> size j
      | Inr (Inl (js, _)) \<Rightarrow> size_list size js
      | Inr (Inr (es, _)) \<Rightarrow> size_list (size_prod (\<lambda>x. 0) size) es)") auto

text \<open>The values of the string leaves of a tree, in depth-first order.\<close>

fun spec_string_leaves :: "json \<Rightarrow> string list" where
  "spec_string_leaves (JStr s) = [s]"
| "spec_string_leaves (JArr xs) = concat (map spec_string_leaves xs)"
| "spec_string_leaves (JObj ps) = concat (map (\<lambda>(k, v). spec_string_leaves v) ps)"
| "spec_string_leaves JNull = []"
| "spec_string_leaves (JBool b) = []"
| "spec_string_leaves (JNum n) = []"

text \<open>Recording a list of entries: one \<^verbatim>\<open>push\<close> and one \<^verbatim>\<open>set\<close> for each.\<close>

definition record_entries :: "(string \<times> string) list \<Rightarrow> extracted \<Rightarrow> extracted" where
  "record_entries es acc =
     (fst acc @ map fst es, fold (\<lambda>(k, v). AList.update k v) es (snd acc))"

text \<open>The output mapping of the flattener read back as a flat one-level object.\<close>

definition flat_object :: "(string \<times> string) list \<Rightarrow> json" where
  "flat_object m = JObj (map (\<lambda>(k, v). (k, JStr v)) m)"

section \<open>Strings\<close>

text \<open>
  A text is a list of characters; a character here is one of the 256 of \<open>char\<close>, which
  covers the ASCII text the patterns and keys below are written in. JavaScript's string
  operations on character lists. \<^verbatim>\<open>indexOf\<close> is the position of the
  first occurrence, or \<open>-1\<close>; \<^verbatim>\<open>substring(0, e)\<close> clamps a negative end to \<open>0\<close> and an end
  beyond the text to its length; \<^verbatim>\<open>replace\<close> with a string pattern rewrites the first
  occurrence only.
\<close>

definition startsWith :: "string \<Rightarrow> string \<Rightarrow> bool" where
  "startsWith s q = (take (length q) s = q)"

fun indexOf_from :: "string \<Rightarrow> string \<Rightarrow> nat \<Rightarrow> int" where
  "indexOf_from [] sub i = (if sub = [] then int i else - 1)"
| "indexOf_from (c # cs) sub i =
     (if startsWith (c # cs) sub then int i else indexOf_from cs sub (Suc i))"

definition indexOf :: "string \<Rightarrow> string \<Rightarrow> int" where
  "indexOf s sub = indexOf_from s sub 0"

definition substring0 :: "string \<Rightarrow> int \<Rightarrow> string" where
  "substring0 s e = take (nat e) s"

fun replace :: "string \<Rightarrow> string \<Rightarrow> string \<Rightarrow> string" where
  "replace [] pat rep = (if pat = [] then rep else [])"
| "replace (c # cs) pat rep =
     (if startsWith (c # cs) pat then rep @ drop (length pat) (c # cs)
      else c # replace cs pat rep)"

text \<open>\<^verbatim>\<open>displayKey.split('.').join(' ')\<close>: every dot becomes a space.\<close>

definition split_join :: "string \<Rightarrow> string" where
  "split_join s = map (\<lambda>c. if c = CHR ''.'' then CHR '' '' else c) s"

text \<open>\<^verbatim>\<open>toLowerCase\<close> on the letters A to Z; every other character is kept.\<close>

definition toLowerCase :: "string \<Rightarrow> string" where
  "toLowerCase s =
     map (\<lambda>c. case map_of (zip ''ABCDEFGHIJKLMNOPQRSTUVWXYZ'' ''abcdefghijklmnopqrstuvwxyz'') c of
               None \<Rightarrow> c | Some l \<Rightarrow> l) s"

section \<open>Regular expressions\<close>

text \<open>
  The fragment of JavaScript's regular expressions the extension's patterns are written in:
  literal characters, the classes \<^verbatim>\<open>[...]\<close>, \<^verbatim>\<open>[^...]\<close> and \<^verbatim>\<open>\s\<close>, the greedy star of
  a class, sequence, alternation, numbered capture groups, \<^verbatim>\<open>$\<close> and \<^verbatim>\<open>\b\<close>.
\<close>

datatype cls = Lit char | OneOf string | NoneOf string | Space

datatype regex = Eps | Atom cls | Star cls | Seq regex regex | Alt regex regex
  | Group nat regex | EndOfInput | WordBoundary

text \<open>The white space of \<^verbatim>\<open>\s\<close> and the word characters of \<^verbatim>\<open>\b\<close>, among the 256.\<close>

definition is_space :: "char \<Rightarrow> bool" where
  "is_space c = (c \<in> set [CHR 0x09, CHR 0x0A, CHR 0x0B, CHR 0x0C, CHR 0x0D, CHR 0x20, CHR 0xA0])"

definition is_word :: "char \<Rightarrow> bool" where
  "is_word c =
     (c \<in> set ''ABCDEFGHIJKLMNOPQRSTUVWXYZabcdefghijklmnopqrstuvwxyz0123456789_'')"

fun in_cls :: "cls \<Rightarrow> char \<Rightarrow> bool" where
  "in_cls (Lit a) c = (c = a)"
| "in_cls (OneOf as) c = (c \<in> set as)"
| "in_cls (NoneOf as) c = (c \<notin> set as)"
| "in_cls Space c = is_space c"

text \<open>
  A matcher state: the character before the current position (none at the start of the
  text), the text still to be read, and the groups captured so far.
\<close>

type_synonym mstate = "char option \<times> string \<times> (nat \<rightharpoonup> string)"

text \<open>
  The ways a star can match, longest first, and after them the ways the rest of a
  pattern is tried: a backtracking matcher returns its successes in priority order.
\<close>

fun star_cls :: "cls \<Rightarrow> char option \<Rightarrow> string \<Rightarrow> (nat \<rightharpoonup> string) \<Rightarrow> mstate list" where
  "star_cls a prev [] caps = [(prev, [], caps)]"
| "star_cls a prev (c # cs) caps =
     (if in_cls a c then star_cls a (Some c) cs caps @ [(prev, c # cs, caps)]
      else [(prev, c # cs, caps)])"

definition at_word_boundary :: "char option \<Rightarrow> string \<Rightarrow> bool" where
  "at_word_boundary prev s =
     ((case prev of None \<Rightarrow> False | Some c \<Rightarrow> is_word c)
        \<noteq> (case s of [] \<Rightarrow> False | c # _ \<Rightarrow> is_word c))"

fun rx_match :: "regex \<Rightarrow> mstate \<Rightarrow> mstate list" where
  "rx_match Eps st = [st]"
| "rx_match (Atom a) (prev, s, caps) =
     (case s of [] \<Rightarrow> [] | c # cs \<Rightarrow> if in_cls a c then [(Some c, cs, caps)] else [])"
| "rx_match (Star a) (prev, s, caps) = star_cls a prev s caps"
| "rx_match (Seq r1 r2) st = concat (map (rx_match r2) (rx_match r1 st))"
| "rx_match (Alt r1 r2) st = rx_match r1 st @ rx_match r2 st"
| "rx_match (Group n r) (prev, s, caps) =
     map (\<lambda>(prev', s', caps'). (prev', s', caps'(n \<mapsto> take (length s - length s') s)))
       (rx_match r (prev, s, caps))"
| "rx_match EndOfInput (prev, s, caps) = (if s = [] then [(prev, s, caps)] else [])"
| "rx_match WordBoundary (prev, s, caps) =
     (if at_word_boundary prev s then [(prev, s, caps)] else [])"

text \<open>
  \<^verbatim>\<open>RegExp.prototype.exec\<close> without the global flag: the leftmost start position with a
  match, and there the first match in priority order. Group \<open>0\<close> is the whole match.
\<close>

fun exec_from :: "regex \<Rightarrow> char option \<Rightarrow> string \<Rightarrow> (nat \<rightharpoonup> string) option" where
  "exec_from r prev [] =
     (case rx_match r (prev, [], Map.empty) of
        [] \<Rightarrow> None
      | (prev', s', caps) # _ \<Rightarrow> Some (caps(0 \<mapsto> [])))"
| "exec_from r prev (c # cs) =
     (case rx_match r (prev, c # cs, Map.empty) of
        [] \<Rightarrow> exec_from r (Some c) cs
      | (prev', s', caps) # _ \<Rightarrow> Some (caps(0 \<mapsto> take (length (c # cs) - length s') (c # cs))))"

text \<open>\<^verbatim>\<open>text.match(pattern)\<close> and \<^verbatim>\<open>pattern.test(text)\<close>.\<close>

definition js_match :: "string \<Rightarrow> regex \<Rightarrow> (nat \<rightharpoonup> string) option" where
  "js_match text pattern = exec_from pattern None text"

definition js_test :: "regex \<Rightarrow> string \<Rightarrow> bool" where
  "js_test pattern text = (exec_from pattern None text \<noteq> None)"

text \<open>Writing a pattern: a literal string, and a sequence of parts.\<close>

definition lit :: "string \<Rightarrow> regex" where
  "lit s = foldr (\<lambda>c r. Seq (Atom (Lit c)) r) s Eps"

definition seq :: "regex list \<Rightarrow> regex" where
  "seq rs = foldr Seq rs Eps"

text \<open>The class \<^verbatim>\<open>["'`]\<close> of the three quote characters.\<close>

definition quotes :: string where
  "quotes = [CHR 0x22, CHR 0x27, CHR 0x60]"

section \<open>Paths and the file system\<close>

text \<open>
  Node's \<^verbatim>\<open>path.basename\<close>, \<^verbatim>\<open>path.extname\<close> and \<^verbatim>\<open>path.join\<close> on POSIX paths. The
  extension of a path starts at the last dot of its last segment; there is none when the
  segment has no dot, when its only dot is its first character, and for \<^verbatim>\<open>..\<close>.
\<close>

definition path_basename :: "string \<Rightarrow> string" where
  "path_basename p =
     rev (takeWhile (\<lambda>c. c \<noteq> CHR ''/'') (dropWhile (\<lambda>c. c = CHR ''/'') (rev p)))"

definition path_extname :: "string \<Rightarrow> string" where
  "path_extname p =
     (let b = path_basename p; e = takeWhile (\<lambda>c. c \<noteq> CHR ''.'') (rev b)
      in if CHR ''.'' \<notin> set b \<or> b = ''..'' \<or> Suc (length e) = length b then []
         else CHR ''.'' # rev e)"

definition path_join :: "string \<Rightarrow> string \<Rightarrow> string" where
  "path_join dir name = dir @ ''/'' @ name"

text \<open>
  What the file system holds at a path, as the calls of \<^verbatim>\<open>processJsonFile\<close> see it:
  \<^verbatim>\<open>stat\<close> throws; a directory \<^verbatim>\<open>readdir\<close> lists, each name with what it holds; a
  directory \<^verbatim>\<open>readdir\<close> throws on; a file, with the error \<^verbatim>\<open>readFile\<close> or
  \<^verbatim>\<open>JSON.parse\<close> throws (\<open>Inl\<close>) or the document parsed from it (\<open>Inr\<close>). An error is
  carried as the text \<^verbatim>\<open>`${err}`\<close> prints.
\<close>

datatype fsnode = NoEntry string
  | Directory "(string \<times> fsnode) list"
  | UnreadableDirectory string
  | RegularFile "string + json"

section \<open>The translation store: \<^verbatim>\<open>refreshTranslationCache\<close>\<close>

record TranslationCache =
  keys :: "string list"
  vals :: "(string \<times> string) list"
  lastUpdate :: int

datatype notification = WarningMessage string | ErrorMessage string

text \<open>The cache under construction and the notifications shown so far.\<close>

type_synonym build = "TranslationCache \<times> notification list"

definition showWarningMessage :: "string \<Rightarrow> string \<Rightarrow> build \<Rightarrow> build" where
  "showWarningMessage filePath err b =
     (fst b, snd b @ [WarningMessage (''Error processing '' @ path_basename filePath @ '': '' @ err)])"

text \<open>
  \<^verbatim>\<open>newCache.keys.push(...extracted.keys)\<close> and the \<^verbatim>\<open>forEach\<close> that copies every entry of
  \<^verbatim>\<open>extracted.values\<close> into \<^verbatim>\<open>newCache.values\<close>.
\<close>

definition merge_extracted :: "extracted \<Rightarrow> TranslationCache \<Rightarrow> TranslationCache" where
  "merge_extracted ex c =
     c\<lparr>keys := keys c @ fst ex,
       vals := fold (\<lambda>(key, value). AList.update key value) (snd ex) (vals c)\<rparr>"

text \<open>
  The helper \<^verbatim>\<open>processJsonFile\<close>, its \<^verbatim>\<open>for\<close> loop over the names of a directory as
  recursion over the remaining names. Every exception of the body is caught by the
  helper's own \<^verbatim>\<open>catch\<close> and becomes a warning.
\<close>

function processJsonFile :: "string \<Rightarrow> fsnode \<Rightarrow> build \<Rightarrow> build"
  and forEach_file :: "string \<Rightarrow> (string \<times> fsnode) list \<Rightarrow> build \<Rightarrow> build"
where
  "processJsonFile filePath (NoEntry err) b = showWarningMessage filePath err b"
| "processJsonFile filePath (Directory files) b = forEach_file filePath files b"
| "processJsonFile filePath (UnreadableDirectory err) b = showWarningMessage filePath err b"
| "processJsonFile filePath (RegularFile content) b =
     (if toLowerCase (path_extname filePath) = ''.json'' then
        (case content of
           Inl err \<Rightarrow> showWarningMessage filePath err b
         | Inr json \<Rightarrow> (merge_extracted (extractTranslationData json []) (fst b), snd b))
      else b)"
| "forEach_file filePath [] b = b"
| "forEach_file filePath ((file, node) # rest) b =
     forEach_file filePath rest
       (if toLowerCase (path_extname file) = ''.json''
        then processJsonFile (path_join filePath file) node b else b)"
  by pat_completeness auto
termination
  by (relation "measure (\<lambda>x. case x of
        Inl (_, n, _) \<Rightarrow> size n
      | Inr (_, fs, _) \<Rightarrow> size_list (size_prod (\<lambda>x. 0) size) fs)") auto

text \<open>\<^verbatim>\<open>[...new Set(keys)]\<close>: the first occurrence of every key, in order.\<close>

definition dedupe :: "string list \<Rightarrow> string list" where
  "dedupe xs = fold (\<lambda>x seen. if x \<in> set seen then seen else seen @ [x]) xs []"

text \<open>
  The global \<^verbatim>\<open>translationCache\<close> and the messages shown to the user. The configuration
  is what \<^verbatim>\<open>config.get('sourceFiles')\<close> gives, each source with what the file system holds
  there, or the error thrown when it cannot be read or iterated.
\<close>

record extension_state =
  translationCache :: TranslationCache
  notifications :: "notification list"

definition refreshTranslationCache ::
    "int \<Rightarrow> string + (string \<times> fsnode) list \<Rightarrow> extension_state \<Rightarrow> extension_state" where
  "refreshTranslationCache now config st =
     (case config of
        Inl err \<Rightarrow>
          st\<lparr>notifications := notifications st
               @ [ErrorMessage (''Failed to refresh translation cache: '' @ err)]\<rparr>
      | Inr sourceFiles \<Rightarrow>
          (let b = fold (\<lambda>(source, node). processJsonFile source node) sourceFiles
                     (\<lparr>keys = [], vals = [], lastUpdate = now\<rparr>, notifications st)
           in \<lparr>translationCache = (fst b)\<lparr>keys := dedupe (keys (fst b))\<rparr>,
               notifications = snd b\<rparr>))"

subsection \<open>The directory scan of the source picker: \<^verbatim>\<open>getJsonFilesFromDirectory\<close>\<close>

text \<open>
  The synchronous scan of \<^verbatim>\<open>extension.ts\<close>. It has no \<^verbatim>\<open>catch\<close>: an exception of
  \<^verbatim>\<open>readdirSync\<close> or \<^verbatim>\<open>statSync\<close> ends it (\<open>Inl\<close>).
\<close>

function getJsonFilesFromDirectory :: "string \<Rightarrow> fsnode \<Rightarrow> string + string list"
  and forEach_dirItem ::
    "string \<Rightarrow> (string \<times> fsnode) list \<Rightarrow> string list \<Rightarrow> string + string list"
where
  "getJsonFilesFromDirectory dirPath (Directory items) = forEach_dirItem dirPath items []"
| "getJsonFilesFromDirectory dirPath (UnreadableDirectory err) = Inl err"
| "getJsonFilesFromDirectory dirPath (NoEntry err) = Inl err"
| "getJsonFilesFromDirectory dirPath (RegularFile content) = Inl ''ENOTDIR''"
| "forEach_dirItem dirPath [] jsonFiles = Inr jsonFiles"
| "forEach_dirItem dirPath ((item, NoEntry err) # rest) jsonFiles = Inl err"
| "forEach_dirItem dirPath ((item, Directory sub) # rest) jsonFiles =
     (case getJsonFilesFromDirectory (path_join dirPath item) (Directory sub) of
        Inl err \<Rightarrow> Inl err
      | Inr found \<Rightarrow> forEach_dirItem dirPath rest (jsonFiles @ found))"
| "forEach_dirItem dirPath ((item, UnreadableDirectory err) # rest) jsonFiles = Inl err"
| "forEach_dirItem dirPath ((item, RegularFile content) # rest) jsonFiles =
     forEach_dirItem dirPath rest
       (if toLowerCase (path_extname (path_join dirPath item)) = ''.json''
        then jsonFiles @ [path_join dirPath item] else jsonFiles)"
  by pat_completeness auto
termination
  by (relation "measure (\<lambda>x. case x of
        Inl (_, n) \<Rightarrow> size n
      | Inr (_, fs, _) \<Rightarrow> size_list (size_prod (\<lambda>x. 0) size) fs)") auto

subsection \<open>What processing a source does, as a list\<close>

text \<open>
  The merges and warnings \<^verbatim>\<open>processJsonFile\<close> performs on a path, in order. The proofs
  below read a rebuild as this list applied to the cache under construction.
\<close>

datatype effect = Merged extracted | Warned string string

function file_effects :: "string \<Rightarrow> fsnode \<Rightarrow> effect list"
  and files_effects :: "string \<Rightarrow> (string \<times> fsnode) list \<Rightarrow> effect list"
where
  "file_effects filePath (NoEntry err) = [Warned filePath err]"
| "file_effects filePath (Directory files) = files_effects filePath files"
| "file_effects filePath (UnreadableDirectory err) = [Warned filePath err]"
| "file_effects filePath (RegularFile content) =
     (if toLowerCase (path_extname filePath) = ''.json'' then
        (case content of
           Inl err \<Rightarrow> [Warned filePath err]
         | Inr json \<Rightarrow> [Merged (extractTranslationData json [])])
      else [])"
| "files_effects filePath [] = []"
| "files_effects filePath ((file, node) # rest) =
     (if toLowerCase (path_extname file) = ''.json''
      then file_effects (path_join filePath file) node else [])
     @ files_effects filePath rest"
  by pat_completeness auto
termination
  by (relation "measure (\<lambda>x. case x of
        Inl (_, n) \<Rightarrow> size n
      | Inr (_, fs) \<Rightarrow> size_list (size_prod (\<lambda>x. 0) size) fs)") auto

fun apply_effect :: "effect \<Rightarrow> build \<Rightarrow> build" where
  "apply_effect (Merged ex) b = (merge_extracted ex (fst b), snd b)"
| "apply_effect (Warned filePath err) b = showWarningMessage filePath err b"

section \<open>The context detector: \<^verbatim>\<open>getContext\<close>\<close>

text \<open>The five patterns of \<^verbatim>\<open>getContext\<close>, in the order of the array \<^verbatim>\<open>patterns\<close>.\<close>

definition previousPattern :: regex where
  "previousPattern =
     seq [lit ''const'', Star Space, lit ''{'', Star Space, lit ''t'', Star Space, lit ''}'',
          Star Space, lit ''='', Star Space, lit ''useTranslation('', Star Space,
          Atom (OneOf quotes), Group 1 (Star (NoneOf quotes)), Atom (OneOf quotes), lit '')'']"

definition patterns :: "regex list" where
  "patterns =
     [previousPattern,
      seq [lit ''const'', Star Space, lit ''t'', Star Space, lit ''='', Star Space,
           lit ''useTranslation('', Star Space,
           Atom (OneOf quotes), Group 1 (Star (NoneOf quotes)), Atom (OneOf quotes), lit '')''],
      seq [lit ''useTranslation('', Star Space,
           Atom (OneOf quotes), Group 1 (Star (NoneOf quotes)), Atom (OneOf quotes)],
      seq [lit ''useTranslation('', Star Space,
           Atom (OneOf quotes), Group 1 (Star (NoneOf quotes)), Atom (OneOf quotes),
           lit '').t''],
      seq [lit ''.'', Group 1 (Alt (lit ''t'') (lit ''translate'')), lit ''('', Star Space,
           Atom (OneOf quotes), Group 2 (Star (NoneOf quotes)), Atom (OneOf quotes)]]"

text \<open>
  The loop over the patterns: the first pattern that matches with a truthy
  \<^verbatim>\<open>matches[1]\<close> ends the function with it (\<open>Some\<close>); \<open>None\<close> when the loop runs out.
\<close>

fun for_patterns :: "regex list \<Rightarrow> string \<Rightarrow> string option" where
  "for_patterns [] textUpToCursor = None"
| "for_patterns (pattern # rest) textUpToCursor =
     (case js_match textUpToCursor pattern of
        None \<Rightarrow> for_patterns rest textUpToCursor
      | Some matches \<Rightarrow>
          (case matches 1 of
             None \<Rightarrow> for_patterns rest textUpToCursor
           | Some g \<Rightarrow> if g \<noteq> [] then Some g else for_patterns rest textUpToCursor))"

text \<open>
  The document of the active editor is given by the text of its line \<^verbatim>\<open>lineNumber\<close> and
  its whole text (\<open>None\<close> when no editor is active). The empty result stands for "no
  context".
\<close>

definition getContext :: "(string \<times> string) option \<Rightarrow> string \<Rightarrow> string" where
  "getContext document linePrefix =
     (case document of
        None \<Rightarrow> []
      | Some (currentLine, documentText) \<Rightarrow>
          (let textUpToCursor =
                 substring0 documentText (indexOf documentText currentLine + int (length linePrefix))
           in case for_patterns patterns textUpToCursor of
                Some context \<Rightarrow> context
              | None \<Rightarrow> []))"

section \<open>The completion provider\<close>

text \<open>The eight patterns of \<^verbatim>\<open>TRANSLATION_PATTERNS\<close>.\<close>

definition TRANSLATION_PATTERNS :: "regex list" where
  "TRANSLATION_PATTERNS =
     [seq [lit ''t('', Star Space, Atom (OneOf quotes), EndOfInput],
      seq [lit ''$t('', Star Space, Atom (OneOf quotes), EndOfInput],
      seq [lit ''useTranslation('', Star Space, Atom (OneOf quotes), Star (NoneOf quotes),
           Atom (OneOf quotes), lit '','', Star Space, Atom (OneOf quotes)],
      seq [lit ''i18n.t('', Star Space, Atom (OneOf quotes), EndOfInput],
      seq [lit ''useTranslation('', Star Space, Atom (OneOf quotes), Star (NoneOf quotes),
           Atom (OneOf quotes), lit ''.t('', Star Space, Atom (OneOf quotes)],
      seq [lit ''useTranslation('', Star (NoneOf '')''), lit '').t('', Star Space,
           Atom (OneOf quotes)],
      seq [lit ''.'', Star Space, lit ''t('', Star Space, Atom (OneOf quotes)],
      seq [WordBoundary, lit ''t('', Star Space, Atom (OneOf quotes)]]"

definition isInTranslationFunction :: "string \<Rightarrow> bool" where
  "isInTranslationFunction linePrefix =
     list_ex (\<lambda>pattern. js_test pattern linePrefix) TRANSLATION_PATTERNS"

text \<open>
  A completion item: its label, its detail (the translation, if the cache has one), the
  key shown in its documentation block and its filter text. The kind, the whitespace
  flag and the replacement range are fixed or come from the editor and are left out.
\<close>

record CompletionItem =
  label :: string
  detail :: "string option"
  documentation :: string
  filterText :: string

text \<open>The callbacks of \<^verbatim>\<open>filter\<close> and \<^verbatim>\<open>map\<close> over \<^verbatim>\<open>translationCache.keys\<close>.\<close>

definition keep_key :: "string \<Rightarrow> string \<Rightarrow> bool" where
  "keep_key context key =
     (if context = [] then True else startsWith key (context @ ''.'') \<and> key \<noteq> context)"

definition make_item :: "TranslationCache \<Rightarrow> string \<Rightarrow> string \<Rightarrow> CompletionItem" where
  "make_item cache context key =
     (let displayKey = (if context \<noteq> [] then replace key (context @ ''.'') [] else key)
      in \<lparr>label = displayKey, detail = map_of (vals cache) key, documentation = key,
          filterText = split_join displayKey\<rparr>)"

definition completionItems :: "TranslationCache \<Rightarrow> string \<Rightarrow> CompletionItem list" where
  "completionItems cache context =
     map (make_item cache context) (filter (keep_key context) (keys cache))"

text \<open>
  The comparator. \<^verbatim>\<open>localeCompare\<close> belongs to the JavaScript runtime and its locale, and
  is a parameter.
\<close>

definition sortCompletionItems ::
    "(string \<Rightarrow> string \<Rightarrow> int) \<Rightarrow> CompletionItem \<Rightarrow> CompletionItem \<Rightarrow> string \<Rightarrow> int" where
  "sortCompletionItems localeCompare a b query =
     (let aLabel = label a; bLabel = label b;
          aExact = (aLabel = query); bExact = (bLabel = query)
      in if aExact \<and> \<not> bExact then - 1
         else if \<not> aExact \<and> bExact then 1
         else let aStarts = startsWith aLabel query; bStarts = startsWith bLabel query
              in if aStarts \<and> \<not> bStarts then - 1
                 else if \<not> aStarts \<and> bStarts then 1
                 else localeCompare aLabel bLabel)"

text \<open>
  \<^verbatim>\<open>Array.prototype.sort\<close> with a comparator, as a stable insertion sort: an element goes
  before the first later element it does not compare greater than.
\<close>

fun insert_by :: "('a \<Rightarrow> 'a \<Rightarrow> int) \<Rightarrow> 'a \<Rightarrow> 'a list \<Rightarrow> 'a list" where
  "insert_by cmp x [] = [x]"
| "insert_by cmp x (y # ys) = (if cmp x y \<le> 0 then x # y # ys else y # insert_by cmp x ys)"

definition array_sort :: "('a \<Rightarrow> 'a \<Rightarrow> int) \<Rightarrow> 'a list \<Rightarrow> 'a list" where
  "array_sort cmp xs = foldr (insert_by cmp) xs []"

text \<open>
  A request: the text of the line before the cursor, the word at the cursor as the editor
  reports it, and the document of the active editor as \<open>getContext\<close> reads it.
\<close>

record request =
  linePrefix :: string
  currentWord :: string
  activeDocument :: "(string \<times> string) option"

text \<open>The body of \<^verbatim>\<open>provideCompletionItems\<close> after the staleness check, on a given cache.\<close>

definition suggest ::
    "(string \<Rightarrow> string \<Rightarrow> int) \<Rightarrow> TranslationCache \<Rightarrow> request \<Rightarrow> CompletionItem list option" where
  "suggest localeCompare cache req =
     (let context = getContext (activeDocument req) (linePrefix req)
      in if \<not> isInTranslationFunction (linePrefix req) then None
         else Some (array_sort (\<lambda>a b. sortCompletionItems localeCompare a b (currentWord req))
                      (completionItems cache context)))"

text \<open>
  \<^verbatim>\<open>provideCompletionItems\<close>: \<open>now\<close> is the clock at the staleness check, \<open>nowRefresh\<close>
  the clock the rebuild reads. The rebuild is awaited: the rest of the body runs on the
  state it leaves.
\<close>

definition provideCompletionItems ::
    "(string \<Rightarrow> string \<Rightarrow> int) \<Rightarrow> int \<Rightarrow> int \<Rightarrow> string + (string \<times> fsnode) list \<Rightarrow> request
      \<Rightarrow> extension_state \<Rightarrow> CompletionItem list option \<times> extension_state" where
  "provideCompletionItems localeCompare now nowRefresh config req st =
     (let st' = (if now - lastUpdate (translationCache st) > 300000
                 then refreshTranslationCache nowRefresh config st else st)
      in (suggest localeCompare (translationCache st') req, st'))"

section \<open>Notions used to state the properties\<close>

text \<open>
  The rank the specification's ordering gives a label against the query: an exact match,
  then a label that starts with the query, then the rest.
\<close>

definition spec_rank :: "string \<Rightarrow> CompletionItem \<Rightarrow> nat" where
  "spec_rank query i =
     (if label i = query then 0 else if startsWith (label i) query then 1 else 2)"

text \<open>
  The value of \<^verbatim>\<open>matches && matches[1]\<close> for one pattern: \<open>None\<close> when the pattern does
  not match or its first group took no part in the match.
\<close>

definition capture1 :: "string \<Rightarrow> regex \<Rightarrow> string option" where
  "capture1 text pattern =
     (case js_match text pattern of None \<Rightarrow> None | Some matches \<Rightarrow> matches 1)"

text \<open>
  The groups a pattern can capture, and the part of the fifth pattern of \<open>getContext\<close>
  after its first group.
\<close>

fun groups :: "regex \<Rightarrow> nat set" where
  "groups (Seq r1 r2) = groups r1 \<union> groups r2"
| "groups (Alt r1 r2) = groups r1 \<union> groups r2"
| "groups (Group n r) = insert n (groups r)"
| "groups r = {}"

definition member_call_tail :: regex where
  "member_call_tail =
     seq [lit ''('', Star Space, Atom (OneOf quotes), Group 2 (Star (NoneOf quotes)),
          Atom (OneOf quotes)]"

text \<open>The effects of a whole list of sources, and the two halves of an effect.\<close>

definition sources_effects :: "(string \<times> fsnode) list \<Rightarrow> effect list" where
  "sources_effects sources = concat (map (\<lambda>(source, node). file_effects source node) sources)"

fun effect_cache :: "effect \<Rightarrow> TranslationCache \<Rightarrow> TranslationCache" where
  "effect_cache (Merged ex) c = merge_extracted ex c"
| "effect_cache (Warned filePath err) c = c"

fun effect_notes :: "effect \<Rightarrow> notification list" where
  "effect_notes (Merged ex) = []"
| "effect_notes (Warned filePath err) =
     [WarningMessage (''Error processing '' @ path_basename filePath @ '': '' @ err)]"

text \<open>A merge whose key list and mapping name the same keys.\<close>

fun lockstep_effect :: "effect \<Rightarrow> bool" where
  "lockstep_effect (Merged ex) = (set (fst ex) = fst ` set (snd ex))"
| "lockstep_effect (Warned filePath err) = True"

section \<open>Properties of the flattener\<close>

lemma record_entries_Nil: "record_entries [] acc = acc"
  by (simp add: record_entries_def)

lemma record_entries_append:
  "record_entries (es @ fs) acc = record_entries fs (record_entries es acc)"
  by (simp add: record_entries_def)

lemma record_entries_single:
  "record_entries [(k, v)] acc = (fst acc @ [k], AList.update k v (snd acc))"
  by (simp add: record_entries_def)

lemma newPrefix_index_spec:
  "newPrefix_index p i = (if p = [] then toString i else p @ ''['' @ toString i @ '']'')"
  by (simp add: newPrefix_index_def)

lemma newPrefix_key_spec:
  "newPrefix_key p k = (if p = [] then k else p @ ''.'' @ k)"
  by (simp add: newPrefix_key_def)

text \<open>
  The traversal records exactly the specification's entries whose value is not the empty
  string: the guard \<^verbatim>\<open>if (!current) return\<close> also stops at an empty string leaf.
\<close>

lemma traverse_records:
  "traverse j p acc = record_entries (filter (\<lambda>e. snd e \<noteq> []) (spec_flatten j p)) acc"
  "forEach_item xs i p acc =
     record_entries (filter (\<lambda>e. snd e \<noteq> []) (spec_flatten_items xs i p)) acc"
  "forEach_entry ps p acc =
     record_entries (filter (\<lambda>e. snd e \<noteq> []) (spec_flatten_props ps p)) acc"
proof (induction j p acc and xs i p acc and ps p acc
    rule: traverse_forEach_item_forEach_entry.induct)
  case (1 current currentPrefix acc)
  show ?case
  proof (cases current)
    case (JArr items)
    with 1(1) show ?thesis by simp
  next
    case (JObj entries)
    with 1(2) show ?thesis by simp
  qed (simp_all add: record_entries_Nil record_entries_single)
next
  case (2 index currentPrefix acc)
  show ?case by (simp add: record_entries_Nil)
next
  case (3 item rest index currentPrefix acc)
  then show ?case
    by (simp add: record_entries_append newPrefix_index_spec del: traverse.simps)
next
  case (4 currentPrefix acc)
  show ?case by (simp add: record_entries_Nil)
next
  case (5 key v rest currentPrefix acc)
  then show ?case
    by (simp add: record_entries_append newPrefix_key_spec del: traverse.simps)
qed

lemma spec_flatten_values:
  "map snd (spec_flatten j p) = spec_string_leaves j"
  "map snd (spec_flatten_items xs i p) = concat (map spec_string_leaves xs)"
  "map snd (spec_flatten_props ps p) = concat (map (\<lambda>(k, v). spec_string_leaves v) ps)"
  by (induction j p and xs i p and ps p
      rule: spec_flatten_spec_flatten_items_spec_flatten_props.induct) simp_all

lemma map_snd_filter:
  "map snd (filter (\<lambda>e. snd e \<noteq> []) es) = filter (\<lambda>s. s \<noteq> []) (map snd es)"
  by (induction es) auto

lemma extracted_keys:
  "fst (extractTranslationData j p) = map fst (filter (\<lambda>e. snd e \<noteq> []) (spec_flatten j p))"
  by (simp add: extractTranslationData_def traverse_records(1) record_entries_def
      del: traverse.simps)

lemma extracted_values:
  "snd (extractTranslationData j p)
     = fold (\<lambda>(k, v). AList.update k v) (filter (\<lambda>e. snd e \<noteq> []) (spec_flatten j p)) []"
  by (simp add: extractTranslationData_def traverse_records(1) record_entries_def
      del: traverse.simps)

theorem flatten_empty_string_leaf_counterexample:
  "fst (extractTranslationData (JObj [(''title'', JStr [])]) [])
     \<noteq> map fst (spec_flatten (JObj [(''title'', JStr [])]) [])
   \<and> length (fst (extractTranslationData (JObj [(''title'', JStr [])]) []))
     \<noteq> length (spec_string_leaves (JObj [(''title'', JStr [])]))"
  by (simp add: extractTranslationData_def newPrefix_key_def)

text \<open>
  C1 (amended). For every JSON value and prefix, the flattener records exactly one entry
  (prefix, value) for each string leaf whose value is not the empty string, in depth-first
  order, and nothing for an empty string, a number, a boolean, null, an empty object or an
  empty array: its keys are the prefixes of those leaves, its mapping is those entries
  stored in order, and the number of keys is the number of non-empty string leaves. On a
  tree with no empty string leaf the number of keys is the number of string leaves.
\<close>

theorem flatten_records_nonempty_string_leaves:
  "fst (extractTranslationData j p) = map fst (filter (\<lambda>e. snd e \<noteq> []) (spec_flatten j p))
   \<and> snd (extractTranslationData j p)
       = fold (\<lambda>(k, v). AList.update k v) (filter (\<lambda>e. snd e \<noteq> []) (spec_flatten j p)) []
   \<and> length (fst (extractTranslationData j p))
       = length (filter (\<lambda>s. s \<noteq> []) (spec_string_leaves j))
   \<and> ([] \<notin> set (spec_string_leaves j) \<longrightarrow>
        length (fst (extractTranslationData j p)) = length (spec_string_leaves j))"
proof -
  have "length (fst (extractTranslationData j p))
      = length (map snd (filter (\<lambda>e. snd e \<noteq> []) (spec_flatten j p)))"
    by (simp add: extracted_keys)
  also have "\<dots> = length (filter (\<lambda>s. s \<noteq> []) (spec_string_leaves j))"
    by (simp only: map_snd_filter spec_flatten_values(1))
  finally have n: "length (fst (extractTranslationData j p))
      = length (filter (\<lambda>s. s \<noteq> []) (spec_string_leaves j))" .
  have "[] \<notin> set (spec_string_leaves j) \<Longrightarrow>
      filter (\<lambda>s. s \<noteq> []) (spec_string_leaves j) = spec_string_leaves j"
    by (rule filter_True) auto
  with n extracted_keys[of j p] extracted_values[of j p] show ?thesis by simp
qed

theorem flatten_records_nonempty_string_leaves_witness:
  "[] \<notin> set (spec_string_leaves
       (JObj [(''auth'', JObj [(''login'', JObj [(''title'', JStr ''Login'')])]),
              (''n'', JNum 3), (''tags'', JArr [JStr ''a'', JNull, JStr ''b''])]))
   \<and> length (fst (extractTranslationData
       (JObj [(''auth'', JObj [(''login'', JObj [(''title'', JStr ''Login'')])]),
              (''n'', JNum 3), (''tags'', JArr [JStr ''a'', JNull, JStr ''b''])]) [])) = 3"
  using flatten_records_nonempty_string_leaves
    [of "JObj [(''auth'', JObj [(''login'', JObj [(''title'', JStr ''Login'')])]),
               (''n'', JNum 3), (''tags'', JArr [JStr ''a'', JNull, JStr ''b''])]" "[]"]
  by simp

subsection \<open>Re-flattening the output\<close>

lemma update_fresh: "k \<notin> fst ` set al \<Longrightarrow> AList.update k v al = al @ [(k, v)]"
  by (induction al) auto

lemma fold_update_distinct:
  "distinct (map fst (vs @ al)) \<Longrightarrow> fold (\<lambda>(k, v). AList.update k v) al vs = vs @ al"
proof (induction al arbitrary: vs)
  case Nil
  then show ?case by simp
next
  case (Cons e al)
  obtain k v where e: "e = (k, v)" by (cases e)
  from Cons.prems have fresh: "k \<notin> fst ` set vs" by (auto simp: e)
  from Cons.prems have "distinct (map fst ((vs @ [(k, v)]) @ al))" by (simp add: e)
  from Cons.IH[OF this] show ?case by (simp add: e update_fresh[OF fresh])
qed

lemma fold_update_keys_distinct:
  "distinct (map fst vs) \<Longrightarrow> distinct (map fst (fold (\<lambda>(k, v). AList.update k v) es vs))"
  by (induction es arbitrary: vs) (auto simp: distinct_update)

lemma set_update_subset: "set (AList.update k v al) \<subseteq> insert (k, v) (set al)"
  by (induction al) auto

lemma fold_update_set:
  "set (fold (\<lambda>(k, v). AList.update k v) es vs) \<subseteq> set es \<union> set vs"
proof (induction es arbitrary: vs)
  case Nil
  show ?case by simp
next
  case (Cons e es)
  obtain k v where e: "e = (k, v)" by (cases e)
  have "set (fold (\<lambda>(k, v). AList.update k v) es (AList.update k v vs))
      \<subseteq> set es \<union> set (AList.update k v vs)" by (rule Cons.IH)
  also have "\<dots> \<subseteq> set es \<union> insert (k, v) (set vs)"
    using set_update_subset[of k v vs] by blast
  finally show ?case by (auto simp: e)
qed

lemma extracted_values_distinct: "distinct (map fst (snd (extractTranslationData j p)))"
  by (simp add: extracted_values fold_update_keys_distinct)

lemma extracted_values_nonempty:
  assumes "e \<in> set (snd (extractTranslationData j p))"
  shows "snd e \<noteq> []"
proof -
  from assms have "e \<in> set (fold (\<lambda>(k, v). AList.update k v)
      (filter (\<lambda>e. snd e \<noteq> []) (spec_flatten j p)) [])"
    by (simp add: extracted_values)
  with fold_update_set[of "filter (\<lambda>e. snd e \<noteq> []) (spec_flatten j p)" "[]"]
  show ?thesis by auto
qed

lemma spec_flatten_props_flat:
  "spec_flatten_props (map (\<lambda>(k, v). (k, JStr v)) al) [] = al"
  by (induction al) auto

lemma extract_flat_object:
  assumes "\<forall>e \<in> set al. snd e \<noteq> []"
  shows "extractTranslationData (flat_object al) [] = record_entries al ([], [])"
proof -
  from assms have "filter (\<lambda>e. snd e \<noteq> []) al = al" by (intro filter_True) auto
  then show ?thesis
    by (simp add: extractTranslationData_def flat_object_def traverse_records(3)
        spec_flatten_props_flat del: forEach_entry.simps)
qed

text \<open>
  C9. For every JSON document (and every starting prefix), flattening the flattener's own
  output mapping, read as a flat one-level object, gives the same mapping again, entry by
  entry and in the same order, and its key list is the keys of that mapping: each emitted
  key maps to itself with its original value. The same holds in whatever order the object
  enumerates the entries of the mapping: the mapping is the same and each property is
  recorded under its own name.
\<close>

theorem flatten_idempotent:
  "snd (extractTranslationData (flat_object (snd (extractTranslationData j p))) [])
     = snd (extractTranslationData j p)
   \<and> fst (extractTranslationData (flat_object (snd (extractTranslationData j p))) [])
     = map fst (snd (extractTranslationData j p))
   \<and> (distinct (map fst props) \<and> set props = set (snd (extractTranslationData j p)) \<longrightarrow>
        map_of (snd (extractTranslationData (flat_object props) []))
          = map_of (snd (extractTranslationData j p))
        \<and> fst (extractTranslationData (flat_object props) []) = map fst props)"
proof -
  let ?out = "snd (extractTranslationData j p)"
  have "\<forall>e \<in> set ?out. snd e \<noteq> []" using extracted_values_nonempty by blast
  then have "extractTranslationData (flat_object ?out) [] = record_entries ?out ([], [])"
    by (rule extract_flat_object)
  moreover have "fold (\<lambda>(k, v). AList.update k v) ?out [] = [] @ ?out"
    by (rule fold_update_distinct) (simp add: extracted_values_distinct)
  ultimately have own: "snd (extractTranslationData (flat_object ?out) []) = ?out
      \<and> fst (extractTranslationData (flat_object ?out) []) = map fst ?out"
    by (simp add: record_entries_def)
  have any: "map_of (snd (extractTranslationData (flat_object props) [])) = map_of ?out
        \<and> fst (extractTranslationData (flat_object props) []) = map fst props"
    if d: "distinct (map fst props)" and s: "set props = set ?out"
  proof -
    from s have "\<forall>e \<in> set props. snd e \<noteq> []" using extracted_values_nonempty by blast
    then have "extractTranslationData (flat_object props) [] = record_entries props ([], [])"
      by (rule extract_flat_object)
    moreover have "fold (\<lambda>(k, v). AList.update k v) props [] = [] @ props"
      by (rule fold_update_distinct) (simp add: d)
    ultimately have r: "snd (extractTranslationData (flat_object props) []) = props
        \<and> fst (extractTranslationData (flat_object props) []) = map fst props"
      by (simp add: record_entries_def)
    have "map_of props = map_of ?out"
      using d extracted_values_distinct[of j p] s by (simp add: map_of_inject_set)
    with r show ?thesis by simp
  qed
  from own any show ?thesis by blast
qed

theorem flatten_idempotent_witness:
  "distinct (map fst [(''1'', ''one''), (''b'', ''bee'')])
   \<and> set [(''1'', ''one''), (''b'', ''bee'')]
       = set (snd (extractTranslationData (JObj [(''b'', JStr ''bee''), (''1'', JStr ''one'')]) []))
   \<and> fst (extractTranslationData (flat_object [(''1'', ''one''), (''b'', ''bee'')]) [])
       = [''1'', ''b'']"
proof -
  have d: "distinct (map fst [(''1'', ''one''), (''b'', ''bee'')])" by simp
  have s: "set [(''1'', ''one''), (''b'', ''bee'')]
       = set (snd (extractTranslationData (JObj [(''b'', JStr ''bee''), (''1'', JStr ''one'')]) []))"
    by (auto simp: extractTranslationData_def newPrefix_key_def)
  from d s flatten_idempotent[of "JObj [(''b'', JStr ''bee''), (''1'', JStr ''one'')]" "[]"
      "[(''1'', ''one''), (''b'', ''bee'')]"]
  show ?thesis by simp
qed

section \<open>Properties of the completion ranker\<close>

lemma replace_prefix:
  "startsWith key pat \<Longrightarrow> replace key pat rep = rep @ drop (length pat) key"
  by (cases key) (auto simp: startsWith_def)

lemma startsWith_self: "startsWith q q"
  by (simp add: startsWith_def)

lemma not_startsWith_longer: "\<not> startsWith context (context @ ''.'')"
  by (simp add: startsWith_def)

lemma label_make_item:
  "label (make_item cache context key)
     = (if context \<noteq> [] then replace key (context @ ''.'') [] else key)"
  by (simp add: make_item_def Let_def)

lemma keep_key_present:
  "context \<noteq> [] \<Longrightarrow> keep_key context = (\<lambda>key. startsWith key (context @ ''.''))"
  using not_startsWith_longer by (auto simp: keep_key_def fun_eq_iff)

lemma labels_present:
  assumes "context \<noteq> []"
  shows "map label (completionItems cache context)
        = map (drop (length context + 1))
            (filter (\<lambda>key. startsWith key (context @ ''.'')) (keys cache))"
  unfolding completionItems_def keep_key_present[OF assms]
  by (induction "keys cache") (auto simp: label_make_item assms replace_prefix)

lemma labels_absent: "map label (completionItems cache []) = keys cache"
  by (simp add: completionItems_def keep_key_def label_make_item comp_def)

text \<open>
  C2. For every cache and every present (non-empty) namespace, the labels offered are
  the keys that start with the namespace followed by a dot, each with that leading part
  removed, in the order of the key sequence; the namespace itself is never retained. With
  no namespace (the empty context) the labels are the keys unchanged. The keys
  \<open>auth.login.title\<close> and \<open>auth.register.title\<close> under the namespace \<open>auth.login\<close> give
  exactly the label \<open>title\<close>, with the value \<open>Login\<close>.
\<close>

theorem namespace_filter:
  "(context \<noteq> [] \<longrightarrow>
      map label (completionItems cache context)
        = map (drop (length context + 1))
            (filter (\<lambda>key. startsWith key (context @ ''.'')) (keys cache))
      \<and> context \<notin> set (filter (keep_key context) (keys cache)))
   \<and> map label (completionItems cache []) = keys cache
   \<and> map (\<lambda>i. (label i, detail i))
        (completionItems
           \<lparr>keys = [''auth.login.title'', ''auth.register.title''],
            vals = [(''auth.login.title'', ''Login''), (''auth.register.title'', ''Register'')],
            lastUpdate = t\<rparr> ''auth.login'')
      = [(''title'', Some ''Login'')]"
proof -
  have "context \<noteq> [] \<Longrightarrow> context \<notin> set (filter (keep_key context) (keys cache))"
    by (simp add: keep_key_present not_startsWith_longer)
  moreover have "map (\<lambda>i. (label i, detail i))
        (completionItems
           \<lparr>keys = [''auth.login.title'', ''auth.register.title''],
            vals = [(''auth.login.title'', ''Login''), (''auth.register.title'', ''Register'')],
            lastUpdate = t\<rparr> ''auth.login'')
      = [(''title'', Some ''Login'')]"
    by (simp add: completionItems_def keep_key_def make_item_def startsWith_def Let_def)
  ultimately show ?thesis using labels_present[of "context" cache] labels_absent[of cache]
    by blast
qed

theorem namespace_filter_witness:
  "''auth'' \<noteq> []
   \<and> map label (completionItems
        \<lparr>keys = [''auth'', ''auth.login.title'', ''authority'', ''home.title''],
         vals = [], lastUpdate = 0\<rparr> ''auth'') = [''login.title'']"
  using namespace_filter[of "''auth''"
      "\<lparr>keys = [''auth'', ''auth.login.title'', ''authority'', ''home.title''],
        vals = [], lastUpdate = 0\<rparr>"]
  by (simp add: startsWith_def)

lemma comparator_by_rank:
  "sortCompletionItems lc a b q
     = (if spec_rank q a < spec_rank q b then - 1
        else if spec_rank q b < spec_rank q a then 1
        else lc (label a) (label b))"
  by (auto simp: sortCompletionItems_def spec_rank_def Let_def startsWith_self)

lemma set_insert_by: "set (insert_by cmp x ys) = insert x (set ys)"
  by (induction ys) auto

lemma length_insert_by: "length (insert_by cmp x ys) = Suc (length ys)"
  by (induction ys) auto

lemma set_array_sort: "set (array_sort cmp xs) = set xs"
  by (induction xs) (auto simp: array_sort_def set_insert_by)

lemma length_array_sort: "length (array_sort cmp xs) = length xs"
  by (induction xs) (auto simp: array_sort_def length_insert_by)

lemma sorted_insert_by:
  assumes "sorted (map (spec_rank q) ys)"
  shows "sorted (map (spec_rank q) (insert_by (\<lambda>a b. sortCompletionItems lc a b q) x ys))"
  using assms
proof (induction ys)
  case Nil
  then show ?case by simp
next
  case (Cons y ys)
  show ?case
  proof (cases "sortCompletionItems lc x y q \<le> 0")
    case True
    then have "spec_rank q x \<le> spec_rank q y"
      by (simp add: comparator_by_rank split: if_splits)
    with Cons.prems True show ?thesis by auto
  next
    case False
    then have "spec_rank q y \<le> spec_rank q x"
      by (simp add: comparator_by_rank split: if_splits)
    with Cons.prems Cons.IH False show ?thesis by (auto simp: set_insert_by)
  qed
qed

lemma sorted_array_sort:
  "sorted (map (spec_rank q) (array_sort (\<lambda>a b. sortCompletionItems lc a b q) xs))"
  by (induction xs) (simp_all add: array_sort_def sorted_insert_by)

text \<open>
  C3. For every query and every two items, the comparator puts the item of lower rank
  first, where an exact match with the query ranks before a label that starts with the
  query and that before every other label, and on equal rank it returns what the
  locale-aware comparison of the two labels returns. Sorting with it rearranges the
  items so that the ranks never decrease. For the query \<open>login\<close> the keys \<open>login\<close>,
  \<open>login.title\<close>, \<open>alogin\<close> come out in this order, whatever the locale comparison is and
  whether they were in this order or in the reverse one.
\<close>

theorem comparator_order:
  "sortCompletionItems lc a b q
     = (if spec_rank q a < spec_rank q b then - 1
        else if spec_rank q b < spec_rank q a then 1
        else lc (label a) (label b))
   \<and> sorted (map (spec_rank q) (array_sort (\<lambda>a b. sortCompletionItems lc a b q) items))
   \<and> set (array_sort (\<lambda>a b. sortCompletionItems lc a b q) items) = set items
   \<and> length (array_sort (\<lambda>a b. sortCompletionItems lc a b q) items) = length items
   \<and> map label (array_sort (\<lambda>a b. sortCompletionItems lc a b ''login'')
        (completionItems
           \<lparr>keys = [''login'', ''login.title'', ''alogin''], vals = [], lastUpdate = t\<rparr> []))
      = [''login'', ''login.title'', ''alogin'']
   \<and> map label (array_sort (\<lambda>a b. sortCompletionItems lc a b ''login'')
        (completionItems
           \<lparr>keys = [''alogin'', ''login.title'', ''login''], vals = [], lastUpdate = t\<rparr> []))
      = [''login'', ''login.title'', ''alogin'']"
proof -
  have "map label (array_sort (\<lambda>a b. sortCompletionItems lc a b ''login'')
        (completionItems
           \<lparr>keys = [''login'', ''login.title'', ''alogin''], vals = [], lastUpdate = t\<rparr> []))
      = [''login'', ''login.title'', ''alogin'']"
    by (simp add: completionItems_def keep_key_def make_item_def array_sort_def
        sortCompletionItems_def startsWith_def Let_def)
  moreover have "map label (array_sort (\<lambda>a b. sortCompletionItems lc a b ''login'')
        (completionItems
           \<lparr>keys = [''alogin'', ''login.title'', ''login''], vals = [], lastUpdate = t\<rparr> []))
      = [''login'', ''login.title'', ''alogin'']"
    by (simp add: completionItems_def keep_key_def make_item_def array_sort_def
        sortCompletionItems_def startsWith_def Let_def)
  ultimately show ?thesis
    using comparator_by_rank[of lc a b q] sorted_array_sort[of q lc items]
      set_array_sort[of "\<lambda>a b. sortCompletionItems lc a b q" items]
      length_array_sort[of "\<lambda>a b. sortCompletionItems lc a b q" items]
    by blast
qed

theorem comparator_order_witness:
  "sortCompletionItems (\<lambda>a b. 0)
     \<lparr>label = ''login.title'', detail = None, documentation = ''login.title'',
      filterText = ''login title''\<rparr>
     \<lparr>label = ''login'', detail = None, documentation = ''login'', filterText = ''login''\<rparr>
     ''login'' = 1"
  using comparator_order[of "\<lambda>a b. 0"
      "\<lparr>label = ''login.title'', detail = None, documentation = ''login.title'',
        filterText = ''login title''\<rparr>"
      "\<lparr>label = ''login'', detail = None, documentation = ''login'', filterText = ''login''\<rparr>"
      "''login''" "[]"]
  by (simp add: spec_rank_def startsWith_def)

section \<open>Properties of the context detector\<close>

lemma for_patterns_Cons:
  "for_patterns (p # ps) input =
     (case capture1 input p of
        None \<Rightarrow> for_patterns ps input
      | Some g \<Rightarrow> if g \<noteq> [] then Some g else for_patterns ps input)"
  by (simp add: capture1_def split: option.splits)

lemma for_patterns_none:
  "(\<forall>p \<in> set ps. capture1 input p = None \<or> capture1 input p = Some [])
     \<Longrightarrow> for_patterns ps input = None"
  by (induction ps) (auto simp: for_patterns_Cons simp del: for_patterns.simps(2))

lemma for_patterns_first:
  "(\<forall>p' \<in> set pre. capture1 input p' = None \<or> capture1 input p' = Some []) \<Longrightarrow>
   capture1 input p = Some g \<Longrightarrow> g \<noteq> [] \<Longrightarrow> for_patterns (pre @ p # post) input = Some g"
  by (induction pre) (auto simp: for_patterns_Cons simp del: for_patterns.simps(2))

lemma for_patterns_nonempty: "for_patterns ps input \<noteq> Some []"
  by (induction ps)
     (auto simp: for_patterns_Cons simp del: for_patterns.simps(2) split: option.splits)

lemma getContext_empty_iff:
  "getContext (Some (line, doc)) lp = [] \<longleftrightarrow>
     for_patterns patterns (substring0 doc (indexOf doc line + int (length lp))) = None"
  using for_patterns_nonempty
  by (auto simp: getContext_def Let_def split: option.splits)

text \<open>
  The specification's example: in a document whose first line is
  \<open>const { t } = useTranslation("auth")\<close> and whose second line is \<open>t(\<close>, with the
  cursor at its end, the context is \<open>auth\<close>.
\<close>

lemma getContext_hook_example:
  "getContext (Some (''t('', ''const { t } = useTranslation('' @ [CHR 0x22] @ ''auth''
       @ [CHR 0x22] @ '')'' @ [CHR 0x0A] @ ''t('')) ''t('' = ''auth''"
  by code_simp

text \<open>
  The fifth pattern: whatever the text, its first group is the method name. The part
  after the group captures only group \<open>2\<close>, and a match of a pattern leaves the groups it
  does not contain as they were.
\<close>

lemma star_cls_caps: "(prev', s', caps') \<in> set (star_cls a prev s caps) \<Longrightarrow> caps' = caps"
  by (induction a prev s caps rule: star_cls.induct) (auto split: if_splits)

lemma rx_match_keeps_group:
  "(prev', s', caps') \<in> set (rx_match r (prev, s, caps)) \<Longrightarrow> n \<notin> groups r \<Longrightarrow> caps' n = caps n"
proof (induction r arbitrary: prev s caps prev' s' caps')
  case (Seq r1 r2)
  from Seq.prems(1) obtain st where st: "st \<in> set (rx_match r1 (prev, s, caps))"
    and m: "(prev', s', caps') \<in> set (rx_match r2 st)" by auto
  obtain p1 s1 c1 where st_eq: "st = (p1, s1, c1)" by (cases st)
  from Seq.IH(1)[of p1 s1 c1 prev s caps] st Seq.prems(2) have "c1 n = caps n"
    by (simp add: st_eq)
  moreover from Seq.IH(2)[of prev' s' caps' p1 s1 c1] m Seq.prems(2) have "caps' n = c1 n"
    by (simp add: st_eq)
  ultimately show ?case by simp
next
  case (Alt r1 r2)
  then show ?case by auto
next
  case (Group k r)
  from Group.prems(1) obtain c0 where "(prev', s', c0) \<in> set (rx_match r (prev, s, caps))"
    and c: "caps' = c0(k \<mapsto> take (length s - length s') s)" by auto
  with Group.IH[of prev' s' c0 prev s caps] Group.prems(2) show ?case by auto
next
  case (Star a)
  then show ?case by (auto dest: star_cls_caps)
qed (auto split: list.splits if_splits)

lemma groups_lit: "groups (lit w) = {}"
  by (induction w) (simp_all add: lit_def)

lemma rx_match_lit:
  "rx_match (lit w) (prev, s, caps)
     = (if startsWith s w then [(if w = [] then prev else Some (last w), drop (length w) s, caps)]
        else [])"
proof (induction w arbitrary: prev s)
  case Nil
  show ?case by (simp add: lit_def startsWith_def)
next
  case (Cons c w)
  have unfold: "lit (c # w) = Seq (Atom (Lit c)) (lit w)" by (simp add: lit_def)
  show ?case
  proof (cases s)
    case Nil
    then show ?thesis by (simp add: unfold startsWith_def)
  next
    case (Cons d ds)
    show ?thesis
      using Cons.IH[of "Some c" ds]
      by (auto simp: unfold Cons startsWith_def)
  qed
qed


lemma last_patterns_shape:
  "last patterns
     = Seq (lit ''.'') (Seq (Group 1 (Alt (lit ''t'') (lit ''translate''))) member_call_tail)"
  by (simp add: patterns_def seq_def member_call_tail_def)

lemma groups_member_call_tail: "1 \<notin> groups member_call_tail"
  by (simp add: member_call_tail_def seq_def groups_lit)

lemma take_of_startsWith:
  "startsWith s w \<Longrightarrow> take (length s - length (drop (length w) s)) s = w"
proof -
  assume a: "startsWith s w"
  then have "length w \<le> length s"
    by (metis startsWith_def length_take min.cobounded2 min.commute)
  then have "length s - length (drop (length w) s) = length w" by simp
  with a show ?thesis by (simp add: startsWith_def)
qed

lemma method_group_results:
  assumes "(prev', s', caps') \<in> set (rx_match (Group 1 (Alt (lit ''t'') (lit ''translate'')))
      (prev, s, caps))"
  shows "caps' 1 = Some ''t'' \<or> caps' 1 = Some ''translate''"
proof -
  from assms obtain c0 where
    m: "(prev', s', c0) \<in> set (rx_match (Alt (lit ''t'') (lit ''translate'')) (prev, s, caps))"
    and c: "caps' = c0(1 \<mapsto> take (length s - length s') s)" by auto
  from m have "(startsWith s ''t'' \<and> s' = drop (length ''t'') s)
      \<or> (startsWith s ''translate'' \<and> s' = drop (length ''translate'') s)"
    by (auto simp: rx_match_lit split: if_splits)
  then have "take (length s - length s') s = ''t'' \<or> take (length s - length s') s = ''translate''"
    using take_of_startsWith[of s "''t''"] take_of_startsWith[of s "''translate''"] by auto
  with c show ?thesis by auto
qed

lemma last_pattern_results:
  assumes "(prev', s', caps') \<in> set (rx_match (last patterns) (prev, s, caps))"
  shows "caps' 1 = Some ''t'' \<or> caps' 1 = Some ''translate''"
proof -
  from assms obtain st1 st2 where
    "st1 \<in> set (rx_match (lit ''.'') (prev, s, caps))"
    and 2: "st2 \<in> set (rx_match (Group 1 (Alt (lit ''t'') (lit ''translate''))) st1)"
    and 3: "(prev', s', caps') \<in> set (rx_match member_call_tail st2)"
    by (auto simp: last_patterns_shape)
  obtain p1 s1 c1 where st1: "st1 = (p1, s1, c1)" by (cases st1)
  obtain p2 s2 c2 where st2: "st2 = (p2, s2, c2)" by (cases st2)
  from 2 have "c2 1 = Some ''t'' \<or> c2 1 = Some ''translate''"
    unfolding st1 st2 by (rule method_group_results)
  moreover from 3 have "caps' 1 = c2 1"
    unfolding st2 by (rule rx_match_keeps_group) (rule groups_member_call_tail)
  ultimately show ?thesis by simp
qed

lemma exec_last_pattern:
  "exec_from (last patterns) prev s = Some m \<Longrightarrow> m 1 = Some ''t'' \<or> m 1 = Some ''translate''"
proof (induction s arbitrary: prev)
  case Nil
  then obtain st rest where r: "rx_match (last patterns) (prev, [], Map.empty) = st # rest"
    by (auto split: list.splits)
  obtain p' s' c' where st: "st = (p', s', c')" by (cases st)
  from r st have "(p', s', c') \<in> set (rx_match (last patterns) (prev, [], Map.empty))" by simp
  then have "c' 1 = Some ''t'' \<or> c' 1 = Some ''translate''" by (rule last_pattern_results)
  with Nil r st show ?case by auto
next
  case (Cons c cs)
  note IH = Cons.IH and found = Cons.prems
  show ?case
  proof (cases "rx_match (last patterns) (prev, c # cs, Map.empty)")
    case Nil
    with IH found show ?thesis by simp
  next
    case (Cons st rest)
    obtain p' s' c' where st: "st = (p', s', c')" by (cases st)
    from Cons st have "(p', s', c') \<in> set (rx_match (last patterns) (prev, c # cs, Map.empty))"
      by simp
    then have "c' 1 = Some ''t'' \<or> c' 1 = Some ''translate''" by (rule last_pattern_results)
    with found Cons st show ?thesis by auto
  qed
qed

lemma capture1_last_pattern:
  "capture1 input (last patterns) = None \<or> capture1 input (last patterns) = Some ''t''
   \<or> capture1 input (last patterns) = Some ''translate''"
  using exec_last_pattern[of None input]
  by (auto simp: capture1_def js_match_def split: option.splits)

text \<open>
  C4, at the input where the code leaves the claim. The document is the one line
  \<open>api.t("home.title")\<close> with the cursor at its end. Only the fifth pattern matches; its
  second group holds the key \<open>home.title\<close>, and \<open>getContext\<close> returns its first group,
  the method name \<open>t\<close>. On \<open>i18n.translate('home')\<close> it returns \<open>translate\<close>. On every
  text the first group of the fifth pattern, when the pattern matches, is one of these two
  method names.
\<close>

theorem member_call_returns_method_name:
  "getContext (Some (''api.t('' @ [CHR 0x22] @ ''home.title'' @ [CHR 0x22] @ '')'',
                     ''api.t('' @ [CHR 0x22] @ ''home.title'' @ [CHR 0x22] @ '')''))
       (''api.t('' @ [CHR 0x22] @ ''home.title'' @ [CHR 0x22] @ '')'') = ''t''
   \<and> map (capture1 (''api.t('' @ [CHR 0x22] @ ''home.title'' @ [CHR 0x22] @ '')'')) patterns
       = [None, None, None, None, Some ''t'']
   \<and> (case js_match (''api.t('' @ [CHR 0x22] @ ''home.title'' @ [CHR 0x22] @ '')'')
              (last patterns) of
         None \<Rightarrow> None | Some matches \<Rightarrow> matches 2) = Some ''home.title''
   \<and> getContext (Some (''i18n.translate('' @ [CHR 0x27] @ ''home'' @ [CHR 0x27] @ '')'',
                       ''i18n.translate('' @ [CHR 0x27] @ ''home'' @ [CHR 0x27] @ '')''))
       (''i18n.translate('' @ [CHR 0x27] @ ''home'' @ [CHR 0x27] @ '')'') = ''translate''
   \<and> (capture1 input (last patterns) = None \<or> capture1 input (last patterns) = Some ''t''
        \<or> capture1 input (last patterns) = Some ''translate'')"
proof -
  have "getContext (Some (''api.t('' @ [CHR 0x22] @ ''home.title'' @ [CHR 0x22] @ '')'',
                     ''api.t('' @ [CHR 0x22] @ ''home.title'' @ [CHR 0x22] @ '')''))
       (''api.t('' @ [CHR 0x22] @ ''home.title'' @ [CHR 0x22] @ '')'') = ''t''"
    by code_simp
  moreover have "map (capture1 (''api.t('' @ [CHR 0x22] @ ''home.title'' @ [CHR 0x22] @ '')''))
       patterns = [None, None, None, None, Some ''t'']"
    by code_simp
  moreover have "(case js_match (''api.t('' @ [CHR 0x22] @ ''home.title'' @ [CHR 0x22] @ '')'')
              (last patterns) of
         None \<Rightarrow> None | Some matches \<Rightarrow> matches 2) = Some ''home.title''"
    by code_simp
  moreover have "getContext
       (Some (''i18n.translate('' @ [CHR 0x27] @ ''home'' @ [CHR 0x27] @ '')'',
              ''i18n.translate('' @ [CHR 0x27] @ ''home'' @ [CHR 0x27] @ '')''))
       (''i18n.translate('' @ [CHR 0x27] @ ''home'' @ [CHR 0x27] @ '')'') = ''translate''"
    by code_simp
  ultimately show ?thesis using capture1_last_pattern[of input] by blast
qed

text \<open>
  C10. For every text: a pattern whose first group is captured as the empty string is
  passed over exactly as a pattern that does not match, and the loop goes on with the
  patterns after it; the result is the first non-empty capture in the order of the
  patterns; when no pattern captures a non-empty first group the loop finds nothing and
  \<open>getContext\<close> returns the empty context, which is never a capture and under which the
  completion filter keeps every key. On the document \<open>useTranslation("")\<close> the context is
  empty.
\<close>

theorem empty_capture_falls_through:
  "(capture1 input p = Some [] \<longrightarrow> for_patterns (p # ps) input = for_patterns ps input)
   \<and> ((\<forall>p' \<in> set pre. capture1 input p' = None \<or> capture1 input p' = Some [])
        \<and> capture1 input q = Some g \<and> g \<noteq> []
        \<longrightarrow> for_patterns (pre @ q # post) input = Some g)
   \<and> ((\<forall>p' \<in> set qs. capture1 other p' = None \<or> capture1 other p' = Some [])
        \<longrightarrow> for_patterns qs other = None)
   \<and> for_patterns ps input \<noteq> Some []
   \<and> (getContext (Some (line, doc)) lp = [] \<longleftrightarrow>
        for_patterns patterns (substring0 doc (indexOf doc line + int (length lp))) = None)
   \<and> filter (keep_key []) ks = ks
   \<and> getContext (Some (''useTranslation('' @ [CHR 0x22, CHR 0x22] @ '')'',
                       ''useTranslation('' @ [CHR 0x22, CHR 0x22] @ '')''))
       (''useTranslation('' @ [CHR 0x22, CHR 0x22] @ '')'') = []"
proof -
  have a: "capture1 input p = Some [] \<longrightarrow> for_patterns (p # ps) input = for_patterns ps input"
    by (simp add: for_patterns_Cons del: for_patterns.simps(2))
  have f: "filter (keep_key []) ks = ks"
    by (simp add: keep_key_def)
  have g: "getContext (Some (''useTranslation('' @ [CHR 0x22, CHR 0x22] @ '')'',
                       ''useTranslation('' @ [CHR 0x22, CHR 0x22] @ '')''))
       (''useTranslation('' @ [CHR 0x22, CHR 0x22] @ '')'') = []"
    by code_simp
  from a f g for_patterns_first[of pre input q g post] for_patterns_none[of qs other]
    for_patterns_nonempty[of ps input] getContext_empty_iff[of line doc lp]
  show ?thesis by blast
qed

theorem empty_capture_falls_through_witness:
  "capture1 (''const { t } = useTranslation('' @ [CHR 0x22, CHR 0x22] @ '')'' @ [CHR 0x0A]
             @ ''const t = useTranslation('' @ [CHR 0x22] @ ''auth'' @ [CHR 0x22] @ '')'')
      previousPattern = Some []
   \<and> for_patterns (previousPattern # tl patterns)
        (''const { t } = useTranslation('' @ [CHR 0x22, CHR 0x22] @ '')'' @ [CHR 0x0A]
         @ ''const t = useTranslation('' @ [CHR 0x22] @ ''auth'' @ [CHR 0x22] @ '')'')
      = for_patterns (tl patterns)
        (''const { t } = useTranslation('' @ [CHR 0x22, CHR 0x22] @ '')'' @ [CHR 0x0A]
         @ ''const t = useTranslation('' @ [CHR 0x22] @ ''auth'' @ [CHR 0x22] @ '')'')
   \<and> map (capture1 (''useTranslation('' @ [CHR 0x22, CHR 0x22] @ '')'')) patterns
       = [None, None, Some [], None, None]
   \<and> for_patterns patterns (''useTranslation('' @ [CHR 0x22, CHR 0x22] @ '')'') = None"
proof -
  have h3: "map (capture1 (''useTranslation('' @ [CHR 0x22, CHR 0x22] @ '')'')) patterns
       = [None, None, Some [], None, None]"
    by code_simp
  have h1: "capture1 (''const { t } = useTranslation('' @ [CHR 0x22, CHR 0x22] @ '')''
             @ [CHR 0x0A]
             @ ''const t = useTranslation('' @ [CHR 0x22] @ ''auth'' @ [CHR 0x22] @ '')'')
      previousPattern = Some []"
    by code_simp
  have h2: "\<forall>p' \<in> set patterns.
         capture1 (''useTranslation('' @ [CHR 0x22, CHR 0x22] @ '')'') p' = None
         \<or> capture1 (''useTranslation('' @ [CHR 0x22, CHR 0x22] @ '')'') p' = Some []"
    by code_simp
  from h1 h2 h3 empty_capture_falls_through
    [where input = "''const { t } = useTranslation('' @ [CHR 0x22, CHR 0x22] @ '')''
             @ [CHR 0x0A]
             @ ''const t = useTranslation('' @ [CHR 0x22] @ ''auth'' @ [CHR 0x22] @ '')''"
       and p = previousPattern and ps = "tl patterns"
       and other = "''useTranslation('' @ [CHR 0x22, CHR 0x22] @ '')''" and qs = patterns]
  show ?thesis by blast
qed

section \<open>Properties of the translation store\<close>

lemma process_effects:
  "processJsonFile p n b = fold apply_effect (file_effects p n) b"
  "forEach_file p fs b = fold apply_effect (files_effects p fs) b"
  by (induction p n b and p fs b rule: processJsonFile_forEach_file.induct)
     (auto split: sum.splits)

lemma fold_sources_effects:
  "fold (\<lambda>(source, node). processJsonFile source node) sources b
     = fold apply_effect (sources_effects sources) b"
  by (induction sources arbitrary: b) (auto simp: sources_effects_def process_effects(1))

lemma apply_effect_split: "apply_effect e b = (effect_cache e (fst b), snd b @ effect_notes e)"
  by (cases e) (simp_all add: showWarningMessage_def)

lemma fold_apply_effect:
  "fold apply_effect es b = (fold effect_cache es (fst b), snd b @ concat (map effect_notes es))"
  by (induction es arbitrary: b) (simp_all add: apply_effect_split)

text \<open>A rebuild that reads its configuration, as the effects of its sources.\<close>

lemma refresh_effects:
  "refreshTranslationCache now (Inr sources) st =
     \<lparr>translationCache =
        (fold effect_cache (sources_effects sources) \<lparr>keys = [], vals = [], lastUpdate = now\<rparr>)
          \<lparr>keys := dedupe (keys (fold effect_cache (sources_effects sources)
                                    \<lparr>keys = [], vals = [], lastUpdate = now\<rparr>))\<rparr>,
      notifications = notifications st @ concat (map effect_notes (sources_effects sources))\<rparr>"
  by (simp add: refreshTranslationCache_def fold_sources_effects fold_apply_effect Let_def)

lemma sources_effects_append:
  "sources_effects (xs @ ys) = sources_effects xs @ sources_effects ys"
  by (simp add: sources_effects_def)

lemma files_effects_append:
  "files_effects p (fs @ gs) = files_effects p fs @ files_effects p gs"
  by (induction fs) auto

lemma fold_update_dom:
  "fst ` set (fold (\<lambda>(k, v). AList.update k v) es vs) = fst ` set es \<union> fst ` set vs"
proof (induction es arbitrary: vs)
  case Nil
  show ?case by simp
next
  case (Cons e es)
  obtain k v where e: "e = (k, v)" by (cases e)
  have "fst ` set (fold (\<lambda>(k, v). AList.update k v) (e # es) vs)
      = fst ` set es \<union> fst ` set (AList.update k v vs)"
    by (simp add: e Cons.IH)
  also have "\<dots> = fst ` set (e # es) \<union> fst ` set vs"
    by (simp add: e dom_update Un_left_commute)
  finally show ?case .
qed

lemma extracted_lockstep:
  "set (fst (extractTranslationData j p)) = fst ` set (snd (extractTranslationData j p))"
  by (simp add: extracted_keys extracted_values fold_update_dom)

lemma file_effects_lockstep:
  "\<forall>e \<in> set (file_effects p n). lockstep_effect e"
  "\<forall>e \<in> set (files_effects p fs). lockstep_effect e"
  by (induction p n and p fs rule: file_effects_files_effects.induct)
     (auto simp: extracted_lockstep split: sum.splits)

lemma sources_effects_lockstep: "\<forall>e \<in> set (sources_effects sources). lockstep_effect e"
  using file_effects_lockstep(1) by (auto simp: sources_effects_def)

lemma set_dedupe_aux:
  "set (fold (\<lambda>x seen. if x \<in> set seen then seen else seen @ [x]) xs acc) = set acc \<union> set xs"
  by (induction xs arbitrary: acc) auto

lemma distinct_dedupe_aux:
  "distinct acc \<Longrightarrow>
     distinct (fold (\<lambda>x seen. if x \<in> set seen then seen else seen @ [x]) xs acc)"
  by (induction xs arbitrary: acc) auto

lemma set_dedupe: "set (dedupe xs) = set xs"
  by (simp add: dedupe_def set_dedupe_aux)

lemma distinct_dedupe: "distinct (dedupe xs)"
  by (simp add: dedupe_def distinct_dedupe_aux)

lemma fold_effect_cache_inv:
  assumes "\<forall>e \<in> set es. lockstep_effect e"
    and "set (keys c) = fst ` set (vals c)" and "distinct (map fst (vals c))"
  shows "set (keys (fold effect_cache es c)) = fst ` set (vals (fold effect_cache es c))
       \<and> distinct (map fst (vals (fold effect_cache es c)))
       \<and> lastUpdate (fold effect_cache es c) = lastUpdate c"
  using assms
proof (induction es arbitrary: c)
  case Nil
  then show ?case by simp
next
  case (Cons e es)
  have "set (keys (effect_cache e c)) = fst ` set (vals (effect_cache e c))
      \<and> distinct (map fst (vals (effect_cache e c)))
      \<and> lastUpdate (effect_cache e c) = lastUpdate c"
    using Cons.prems
    by (cases e) (auto simp: merge_extracted_def fold_update_dom fold_update_keys_distinct)
  with Cons.IH[of "effect_cache e c"] Cons.prems show ?case by simp
qed

lemma map_of_fold_update:
  "map_of (fold (\<lambda>(k, v). AList.update k v) es vs)
     = map_of vs ++ map_of (fold (\<lambda>(k, v). AList.update k v) es [])"
proof (induction es rule: rev_induct)
  case Nil
  show ?case by simp
next
  case (snoc e es)
  obtain k v where e: "e = (k, v)" by (cases e)
  show ?case
    by (rule ext) (simp add: e update_conv snoc.IH map_add_def)
qed

lemma map_of_effect_cache:
  "map_of (vals (effect_cache e c))
     = map_of (vals c) ++ map_of (vals (effect_cache e \<lparr>keys = [], vals = [], lastUpdate = t\<rparr>))"
  by (cases e) (simp_all add: merge_extracted_def map_of_fold_update[of _ "vals c"])

lemma map_of_fold_effect_cache:
  "map_of (vals (fold effect_cache es c))
     = map_of (vals c)
       ++ map_of (vals (fold effect_cache es \<lparr>keys = [], vals = [], lastUpdate = t\<rparr>))"
proof (induction es rule: rev_induct)
  case Nil
  show ?case by simp
next
  case (snoc e es)
  let ?c0 = "\<lparr>keys = [], vals = [], lastUpdate = t\<rparr>"
  have "map_of (vals (fold effect_cache (es @ [e]) c))
      = map_of (vals (fold effect_cache es c)) ++ map_of (vals (effect_cache e ?c0))"
    by (simp add: map_of_effect_cache[of e "fold effect_cache es c" t])
  also have "\<dots> = map_of (vals c)
      ++ (map_of (vals (fold effect_cache es ?c0)) ++ map_of (vals (effect_cache e ?c0)))"
    by (simp add: snoc.IH)
  also have "map_of (vals (fold effect_cache es ?c0)) ++ map_of (vals (effect_cache e ?c0))
      = map_of (vals (fold effect_cache (es @ [e]) ?c0))"
    by (simp add: map_of_effect_cache[of e "fold effect_cache es ?c0" t])
  finally show ?case .
qed

lemma takeWhile_absent:
  "\<forall>x \<in> set xs. x \<noteq> a \<Longrightarrow> takeWhile (\<lambda>c. c \<noteq> a) (xs @ a # ys) = xs"
  by (induction xs) auto

lemma path_basename_name:
  assumes "CHR ''/'' \<notin> set f"
  shows "path_basename f = f"
proof -
  from assms have n: "\<forall>x \<in> set (rev f). x \<noteq> CHR ''/''" by auto
  then have "dropWhile (\<lambda>c. c = CHR ''/'') (rev f) = rev f"
    by (cases "rev f") auto
  moreover from n have "takeWhile (\<lambda>c. c \<noteq> CHR ''/'') (rev f) = rev f"
    by (simp only: takeWhile_eq_all_conv)
  ultimately have "rev (takeWhile (\<lambda>c. c \<noteq> CHR ''/'') (dropWhile (\<lambda>c. c = CHR ''/'') (rev f)))
      = rev (rev f)"
    by (simp only:)
  then show ?thesis by (simp only: path_basename_def rev_rev_ident)
qed

lemma path_basename_join:
  assumes "CHR ''/'' \<notin> set f" and "f \<noteq> []"
  shows "path_basename (path_join d f) = f"
proof -
  from assms(1) have n: "\<forall>x \<in> set (rev f). x \<noteq> CHR ''/''" by auto
  from assms(2) have "rev f \<noteq> []" by simp
  with n have "dropWhile (\<lambda>c. c = CHR ''/'') (rev f @ CHR ''/'' # rev d) = rev f @ CHR ''/'' # rev d"
    by (cases "rev f") auto
  moreover from n have "takeWhile (\<lambda>c. c \<noteq> CHR ''/'') (rev f @ CHR ''/'' # rev d) = rev f"
    by (rule takeWhile_absent)
  moreover have "rev (path_join d f) = rev f @ CHR ''/'' # rev d"
    by (simp add: path_join_def)
  ultimately have "rev (takeWhile (\<lambda>c. c \<noteq> CHR ''/'')
      (dropWhile (\<lambda>c. c = CHR ''/'') (rev (path_join d f)))) = rev (rev f)"
    by (simp only:)
  then show ?thesis by (simp only: path_basename_def rev_rev_ident)
qed

lemma path_extname_join:
  assumes "CHR ''/'' \<notin> set f" and "f \<noteq> []"
  shows "path_extname (path_join d f) = path_extname f"
  by (simp add: path_extname_def path_basename_join[OF assms] path_basename_name[OF assms(1)])

text \<open>
  C5, at the input where the code leaves the claim. The source \<open>locales\<close> is a directory
  whose subdirectory \<open>en\<close> holds \<open>common.json\<close>. The rebuild passes over \<open>en\<close>, whose
  name has no \<open>.json\<close> extension, never reads \<open>common.json\<close>, and builds an empty store
  without any warning; the directory scan of the source picker finds the file.
\<close>

theorem rebuild_misses_nested_directory:
  "refreshTranslationCache now
     (Inr [(''locales'', Directory [(''en'', Directory [(''common.json'',
              RegularFile (Inr (JObj [(''hello'', JStr ''Hello'')])))])])]) st
     = \<lparr>translationCache = \<lparr>keys = [], vals = [], lastUpdate = now\<rparr>,
        notifications = notifications st\<rparr>
   \<and> getJsonFilesFromDirectory ''locales''
       (Directory [(''en'', Directory [(''common.json'',
              RegularFile (Inr (JObj [(''hello'', JStr ''Hello'')])))])])
     = Inr [''locales/en/common.json'']
   \<and> translationCache (refreshTranslationCache now
       (Inr [(''locales'', Directory [(''common.JSON'',
              RegularFile (Inr (JObj [(''hello'', JStr ''Hello'')])))])]) st)
     = \<lparr>keys = [''hello''], vals = [(''hello'', ''Hello'')], lastUpdate = now\<rparr>"
  by (simp add: refreshTranslationCache_def dedupe_def path_extname_def path_basename_def
      toLowerCase_def path_join_def Let_def extractTranslationData_def merge_extracted_def
      newPrefix_key_def)

text \<open>
  C7. For every rebuild that reads its configuration: a source file whose read or parse
  fails leaves the store exactly as the rebuild without that source builds it, whether the
  file is a source itself or an entry of a source directory, and when its name has the
  \<open>.json\<close> extension (so that it is read at all) the warning naming it is among the
  notifications; the same holds of a source path that cannot be examined at all; the
  store built is swapped in, with the time of the rebuild. A rebuild whose configuration
  cannot be read leaves the previous store as it was and adds one error notification.
\<close>

theorem rebuild_failures:
  "translationCache (refreshTranslationCache now
       (Inr (before @ (p, RegularFile (Inl err)) # after)) st)
     = translationCache (refreshTranslationCache now (Inr (before @ after)) st)
   \<and> (toLowerCase (path_extname p) = ''.json'' \<longrightarrow>
        WarningMessage (''Error processing '' @ path_basename p @ '': '' @ err)
          \<in> set (notifications (refreshTranslationCache now
                 (Inr (before @ (p, RegularFile (Inl err)) # after)) st)))
   \<and> translationCache (refreshTranslationCache now
       (Inr (before @ (d, Directory (fs @ (f, RegularFile (Inl err)) # gs)) # after)) st)
     = translationCache (refreshTranslationCache now
       (Inr (before @ (d, Directory (fs @ gs)) # after)) st)
   \<and> (toLowerCase (path_extname f) = ''.json'' \<and> CHR ''/'' \<notin> set f \<longrightarrow>
        WarningMessage (''Error processing '' @ f @ '': '' @ err)
          \<in> set (notifications (refreshTranslationCache now
                 (Inr (before @ (d, Directory (fs @ (f, RegularFile (Inl err)) # gs)) # after)) st)))
   \<and> translationCache (refreshTranslationCache now
       (Inr (before @ (p, NoEntry err) # after)) st)
     = translationCache (refreshTranslationCache now (Inr (before @ after)) st)
   \<and> WarningMessage (''Error processing '' @ path_basename p @ '': '' @ err)
        \<in> set (notifications (refreshTranslationCache now
               (Inr (before @ (p, NoEntry err) # after)) st))
   \<and> lastUpdate (translationCache (refreshTranslationCache now (Inr sources) st)) = now
   \<and> translationCache (refreshTranslationCache now (Inl rebuild_err) st) = translationCache st
   \<and> notifications (refreshTranslationCache now (Inl rebuild_err) st)
       = notifications st @ [ErrorMessage (''Failed to refresh translation cache: '' @ rebuild_err)]"
proof -
  let ?c0 = "\<lparr>keys = [], vals = [], lastUpdate = now\<rparr>"
  have 8: "translationCache (refreshTranslationCache now
       (Inr (before @ (p, NoEntry err) # after)) st)
     = translationCache (refreshTranslationCache now (Inr (before @ after)) st)"
    by (simp add: refresh_effects sources_effects_def)
  have 9: "WarningMessage (''Error processing '' @ path_basename p @ '': '' @ err)
        \<in> set (notifications (refreshTranslationCache now
               (Inr (before @ (p, NoEntry err) # after)) st))"
    by (simp add: refresh_effects sources_effects_def)
  have 1: "translationCache (refreshTranslationCache now
       (Inr (before @ (p, RegularFile (Inl err)) # after)) st)
     = translationCache (refreshTranslationCache now (Inr (before @ after)) st)"
    by (simp add: refresh_effects sources_effects_def)
  have 2: "toLowerCase (path_extname p) = ''.json'' \<longrightarrow>
        WarningMessage (''Error processing '' @ path_basename p @ '': '' @ err)
          \<in> set (notifications (refreshTranslationCache now
                 (Inr (before @ (p, RegularFile (Inl err)) # after)) st))"
    by (simp add: refresh_effects sources_effects_def)
  have 3: "translationCache (refreshTranslationCache now
       (Inr (before @ (d, Directory (fs @ (f, RegularFile (Inl err)) # gs)) # after)) st)
     = translationCache (refreshTranslationCache now
       (Inr (before @ (d, Directory (fs @ gs)) # after)) st)"
    by (simp add: refresh_effects sources_effects_def files_effects_append)
  have 4: "toLowerCase (path_extname f) = ''.json'' \<and> CHR ''/'' \<notin> set f \<longrightarrow>
        WarningMessage (''Error processing '' @ f @ '': '' @ err)
          \<in> set (notifications (refreshTranslationCache now
                 (Inr (before @ (d, Directory (fs @ (f, RegularFile (Inl err)) # gs)) # after)) st))"
  proof
    assume a: "toLowerCase (path_extname f) = ''.json'' \<and> CHR ''/'' \<notin> set f"
    then have "f \<noteq> []" by (auto simp: path_extname_def path_basename_def toLowerCase_def)
    with a have "path_basename (path_join d f) = f"
      and "path_extname (path_join d f) = path_extname f"
      by (simp_all add: path_basename_join path_extname_join)
    with a show "WarningMessage (''Error processing '' @ f @ '': '' @ err)
          \<in> set (notifications (refreshTranslationCache now
                 (Inr (before @ (d, Directory (fs @ (f, RegularFile (Inl err)) # gs)) # after)) st))"
      by (simp add: refresh_effects sources_effects_def files_effects_append)
  qed
  have "lastUpdate (fold effect_cache (sources_effects sources) ?c0) = lastUpdate ?c0"
    using fold_effect_cache_inv[of "sources_effects sources" ?c0]
    by (simp add: sources_effects_lockstep)
  then have 5: "lastUpdate (translationCache (refreshTranslationCache now (Inr sources) st)) = now"
    by (simp add: refresh_effects)
  have 6: "translationCache (refreshTranslationCache now (Inl rebuild_err) st) = translationCache st"
    by (simp add: refreshTranslationCache_def)
  have 7: "notifications (refreshTranslationCache now (Inl rebuild_err) st)
       = notifications st @ [ErrorMessage (''Failed to refresh translation cache: '' @ rebuild_err)]"
    by (simp add: refreshTranslationCache_def)
  from 1 2 3 4 5 6 7 8 9 show ?thesis by blast
qed

theorem rebuild_failures_witness:
  "toLowerCase (path_extname ''/l10n/broken.JSON'') = ''.json''
   \<and> toLowerCase (path_extname ''de.json'') = ''.json'' \<and> CHR ''/'' \<notin> set ''de.json''
   \<and> WarningMessage ''Error processing broken.JSON: SyntaxError: Unexpected end of JSON input''
        \<in> set (notifications (refreshTranslationCache 5
             (Inr ([(''/l10n/en.json'', RegularFile (Inr (JObj [(''hello'', JStr ''Hello'')])))]
                   @ (''/l10n/broken.JSON'',
                      RegularFile (Inl ''SyntaxError: Unexpected end of JSON input''))
                   # [(''/l10n/fr.json'', RegularFile (Inr (JObj [(''bye'', JStr ''Salut'')])))]))
             \<lparr>translationCache = \<lparr>keys = [], vals = [], lastUpdate = 0\<rparr>, notifications = []\<rparr>))
   \<and> translationCache (refreshTranslationCache 5
             (Inr ([(''/l10n/en.json'', RegularFile (Inr (JObj [(''hello'', JStr ''Hello'')])))]
                   @ (''/l10n/broken.JSON'',
                      RegularFile (Inl ''SyntaxError: Unexpected end of JSON input''))
                   # [(''/l10n/fr.json'', RegularFile (Inr (JObj [(''bye'', JStr ''Salut'')])))]))
             \<lparr>translationCache = \<lparr>keys = [], vals = [], lastUpdate = 0\<rparr>, notifications = []\<rparr>)
       = \<lparr>keys = [''hello'', ''bye''], vals = [(''hello'', ''Hello''), (''bye'', ''Salut'')],
          lastUpdate = 5\<rparr>"
proof -
  have h: "toLowerCase (path_extname ''/l10n/broken.JSON'') = ''.json''"
    by (simp add: toLowerCase_def path_extname_def path_basename_def)
  have g: "toLowerCase (path_extname ''de.json'') = ''.json'' \<and> CHR ''/'' \<notin> set ''de.json''"
    by (simp add: toLowerCase_def path_extname_def path_basename_def)
  have e: "translationCache (refreshTranslationCache 5
             (Inr ([(''/l10n/en.json'', RegularFile (Inr (JObj [(''hello'', JStr ''Hello'')])))]
                   @ [(''/l10n/fr.json'', RegularFile (Inr (JObj [(''bye'', JStr ''Salut'')])))]))
             \<lparr>translationCache = \<lparr>keys = [], vals = [], lastUpdate = 0\<rparr>, notifications = []\<rparr>)
       = \<lparr>keys = [''hello'', ''bye''], vals = [(''hello'', ''Hello''), (''bye'', ''Salut'')],
          lastUpdate = 5\<rparr>"
    by (simp add: refreshTranslationCache_def dedupe_def path_extname_def path_basename_def
      toLowerCase_def Let_def extractTranslationData_def merge_extracted_def newPrefix_key_def)
  have b: "path_basename ''/l10n/broken.JSON'' = ''broken.JSON''"
    by (simp add: path_basename_def)
  from h g e b rebuild_failures
    [where now = 5 and p = "''/l10n/broken.JSON''" and f = "''de.json''"
       and err = "''SyntaxError: Unexpected end of JSON input''"
       and before = "[(''/l10n/en.json'', RegularFile (Inr (JObj [(''hello'', JStr ''Hello'')])))]"
       and after = "[(''/l10n/fr.json'', RegularFile (Inr (JObj [(''bye'', JStr ''Salut'')])))]"
       and st = "\<lparr>translationCache = \<lparr>keys = [], vals = [], lastUpdate = 0\<rparr>,
                 notifications = []\<rparr>"]
  show ?thesis by simp
qed

text \<open>
  C8. For every store a rebuild swaps in: the keys of the key sequence are exactly the
  keys the value mapping has an entry for, the key sequence has no duplicates (nor has
  the mapping), and the mapping built from a list of sources is the mapping of its earlier
  part overridden by the mapping of its later part, so that a key the later sources define
  keeps the value they give it.
\<close>

theorem rebuilt_store_lockstep:
  "set (keys (translationCache (refreshTranslationCache now (Inr sources) st)))
     = dom (map_of (vals (translationCache (refreshTranslationCache now (Inr sources) st))))
   \<and> distinct (keys (translationCache (refreshTranslationCache now (Inr sources) st)))
   \<and> distinct (map fst (vals (translationCache (refreshTranslationCache now (Inr sources) st))))
   \<and> map_of (vals (translationCache (refreshTranslationCache now (Inr (earlier @ later)) st)))
       = map_of (vals (translationCache (refreshTranslationCache now (Inr earlier) st)))
         ++ map_of (vals (translationCache (refreshTranslationCache now (Inr later) st)))
   \<and> (map_of (vals (translationCache (refreshTranslationCache now (Inr later) st))) k = Some v
        \<longrightarrow> map_of (vals (translationCache
               (refreshTranslationCache now (Inr (earlier @ later)) st))) k = Some v)"
proof -
  let ?c0 = "\<lparr>keys = [], vals = [], lastUpdate = now\<rparr>"
  have inv: "set (keys (fold effect_cache (sources_effects sources) ?c0))
        = fst ` set (vals (fold effect_cache (sources_effects sources) ?c0))
      \<and> distinct (map fst (vals (fold effect_cache (sources_effects sources) ?c0)))
      \<and> lastUpdate (fold effect_cache (sources_effects sources) ?c0) = lastUpdate ?c0"
    by (rule fold_effect_cache_inv) (simp_all add: sources_effects_lockstep)
  have add: "map_of (vals (translationCache (refreshTranslationCache now (Inr (earlier @ later)) st)))
       = map_of (vals (translationCache (refreshTranslationCache now (Inr earlier) st)))
         ++ map_of (vals (translationCache (refreshTranslationCache now (Inr later) st)))"
    using map_of_fold_effect_cache[of "sources_effects later"
        "fold effect_cache (sources_effects earlier) ?c0" now]
    by (simp add: refresh_effects sources_effects_append)
  from inv have 1: "set (keys (translationCache (refreshTranslationCache now (Inr sources) st)))
     = dom (map_of (vals (translationCache (refreshTranslationCache now (Inr sources) st))))"
    by (simp add: refresh_effects set_dedupe dom_map_of_conv_image_fst)
  from inv have 2: "distinct (map fst (vals (translationCache
      (refreshTranslationCache now (Inr sources) st))))"
    by (simp add: refresh_effects)
  have 3: "distinct (keys (translationCache (refreshTranslationCache now (Inr sources) st)))"
    by (simp add: refresh_effects distinct_dedupe)
  from add have 4: "map_of (vals (translationCache (refreshTranslationCache now (Inr later) st))) k
        = Some v
        \<longrightarrow> map_of (vals (translationCache
               (refreshTranslationCache now (Inr (earlier @ later)) st))) k = Some v"
    by (simp add: map_add_Some_iff)
  from 1 2 3 add 4 show ?thesis by blast
qed

theorem rebuilt_store_lockstep_witness:
  "map_of (vals (translationCache (refreshTranslationCache 7
       (Inr [(''fr.json'', RegularFile (Inr (JObj [(''title'', JStr ''Titre'')])))])
       \<lparr>translationCache = \<lparr>keys = [], vals = [], lastUpdate = 0\<rparr>, notifications = []\<rparr>)))
     ''title'' = Some ''Titre''
   \<and> map_of (vals (translationCache (refreshTranslationCache 7
       (Inr ([(''en.json'', RegularFile (Inr (JObj [(''title'', JStr ''Title'')])))]
             @ [(''fr.json'', RegularFile (Inr (JObj [(''title'', JStr ''Titre'')])))]))
       \<lparr>translationCache = \<lparr>keys = [], vals = [], lastUpdate = 0\<rparr>, notifications = []\<rparr>)))
     ''title'' = Some ''Titre''"
proof -
  have h: "map_of (vals (translationCache (refreshTranslationCache 7
       (Inr [(''fr.json'', RegularFile (Inr (JObj [(''title'', JStr ''Titre'')])))])
       \<lparr>translationCache = \<lparr>keys = [], vals = [], lastUpdate = 0\<rparr>, notifications = []\<rparr>)))
     ''title'' = Some ''Titre''"
    by (simp add: refreshTranslationCache_def dedupe_def path_extname_def path_basename_def
      toLowerCase_def Let_def extractTranslationData_def merge_extracted_def newPrefix_key_def)
  with rebuilt_store_lockstep[where now = 7 and k = "''title''" and v = "''Titre''"
      and later = "[(''fr.json'', RegularFile (Inr (JObj [(''title'', JStr ''Titre'')])))]"
      and earlier = "[(''en.json'', RegularFile (Inr (JObj [(''title'', JStr ''Title'')])))]"
      and st = "\<lparr>translationCache = \<lparr>keys = [], vals = [], lastUpdate = 0\<rparr>,
                notifications = []\<rparr>"]
  show ?thesis by blast
qed

section \<open>The staleness check\<close>

theorem stale_request_answers_from_rebuilt_store_counterexample:
  "map_option (map label)
     (fst (provideCompletionItems (\<lambda>a b. 0) 300001 300001
        (Inr [(''en.json'', RegularFile (Inr (JObj [(''fresh'', JStr ''New'')])))])
        \<lparr>linePrefix = ''t('' @ [CHR 0x22], currentWord = [],
         activeDocument = Some (''t('' @ [CHR 0x22], ''t('' @ [CHR 0x22])\<rparr>
        \<lparr>translationCache =
           \<lparr>keys = [''stale''], vals = [(''stale'', ''Old'')], lastUpdate = 0\<rparr>,
         notifications = []\<rparr>))
     = Some [''fresh'']
   \<and> map_option (map label)
     (suggest (\<lambda>a b. 0)
        \<lparr>keys = [''stale''], vals = [(''stale'', ''Old'')], lastUpdate = 0\<rparr>
        \<lparr>linePrefix = ''t('' @ [CHR 0x22], currentWord = [],
         activeDocument = Some (''t('' @ [CHR 0x22], ''t('' @ [CHR 0x22])\<rparr>)
     = Some [''stale'']"
  by code_simp

text \<open>
  C6 (amended). For every completion request the staleness check fires exactly when the
  clock minus the store's last update strictly exceeds 300,000 ms. When it fires the
  request runs the rebuild to its end first and answers from the state the rebuild leaves
  (the rebuilt store, or the previous one with an error notification when the rebuild
  fails); when it does not fire the request answers from the store as it is and leaves the
  state unchanged.
\<close>

theorem stale_request_awaits_rebuild:
  "(now - lastUpdate (translationCache st) > 300000 \<longrightarrow>
      provideCompletionItems lc now nowRefresh config req st
        = (suggest lc (translationCache (refreshTranslationCache nowRefresh config st)) req,
           refreshTranslationCache nowRefresh config st))
   \<and> (clock - lastUpdate (translationCache fresh) \<le> 300000 \<longrightarrow>
      provideCompletionItems lc clock nowRefresh config req fresh
        = (suggest lc (translationCache fresh) req, fresh))
   \<and> (now - lastUpdate (translationCache st) > 300000 \<longrightarrow>
      lastUpdate (translationCache
        (snd (provideCompletionItems lc now nowRefresh (Inr sources) req st))) = nowRefresh)
   \<and> (now - lastUpdate (translationCache st) > 300000 \<longrightarrow>
      translationCache (snd (provideCompletionItems lc now nowRefresh (Inl err) req st))
        = translationCache st)"
proof -
  have "lastUpdate (translationCache (refreshTranslationCache nowRefresh (Inr sources) st))
      = nowRefresh"
    using fold_effect_cache_inv[of "sources_effects sources"
        "\<lparr>keys = [], vals = [], lastUpdate = nowRefresh\<rparr>"]
    by (simp add: refresh_effects sources_effects_lockstep)
  moreover have "translationCache (refreshTranslationCache nowRefresh (Inl err) st)
      = translationCache st"
    by (simp add: refreshTranslationCache_def)
  ultimately show ?thesis
    by (simp add: provideCompletionItems_def Let_def)
qed

theorem stale_request_awaits_rebuild_witness:
  "(300001::int) - lastUpdate (translationCache
       \<lparr>translationCache = \<lparr>keys = [''stale''], vals = [(''stale'', ''Old'')], lastUpdate = 0\<rparr>,
        notifications = []\<rparr>) > 300000
   \<and> (300000::int) - lastUpdate (translationCache
       \<lparr>translationCache = \<lparr>keys = [''stale''], vals = [(''stale'', ''Old'')], lastUpdate = 0\<rparr>,
        notifications = []\<rparr>) \<le> 300000
   \<and> lastUpdate (translationCache (snd (provideCompletionItems (\<lambda>a b. 0) 300001 300002
        (Inr [(''en.json'', RegularFile (Inr (JObj [(''fresh'', JStr ''New'')])))])
        \<lparr>linePrefix = ''t('' @ [CHR 0x22], currentWord = [],
         activeDocument = Some (''t('' @ [CHR 0x22], ''t('' @ [CHR 0x22])\<rparr>
        \<lparr>translationCache =
           \<lparr>keys = [''stale''], vals = [(''stale'', ''Old'')], lastUpdate = 0\<rparr>,
         notifications = []\<rparr>))) = 300002
   \<and> snd (provideCompletionItems (\<lambda>a b. 0) 300000 300002
        (Inr [(''en.json'', RegularFile (Inr (JObj [(''fresh'', JStr ''New'')])))])
        \<lparr>linePrefix = ''t('' @ [CHR 0x22], currentWord = [],
         activeDocument = Some (''t('' @ [CHR 0x22], ''t('' @ [CHR 0x22])\<rparr>
        \<lparr>translationCache =
           \<lparr>keys = [''stale''], vals = [(''stale'', ''Old'')], lastUpdate = 0\<rparr>,
         notifications = []\<rparr>)
     = \<lparr>translationCache =
           \<lparr>keys = [''stale''], vals = [(''stale'', ''Old'')], lastUpdate = 0\<rparr>,
         notifications = []\<rparr>"
proof -
  note inst = stale_request_awaits_rebuild
    [where now = 300001 and clock = 300000 and nowRefresh = 300002 and lc = "\<lambda>a b. 0"
       and sources = "[(''en.json'', RegularFile (Inr (JObj [(''fresh'', JStr ''New'')])))]"
       and config = "Inr [(''en.json'', RegularFile (Inr (JObj [(''fresh'', JStr ''New'')])))]"
       and err = "''unreadable''"
       and req = "\<lparr>linePrefix = ''t('' @ [CHR 0x22], currentWord = [],
         activeDocument = Some (''t('' @ [CHR 0x22], ''t('' @ [CHR 0x22])\<rparr>"
       and st = "\<lparr>translationCache =
           \<lparr>keys = [''stale''], vals = [(''stale'', ''Old'')], lastUpdate = 0\<rparr>,
         notifications = []\<rparr>"
       and fresh = "\<lparr>translationCache =
           \<lparr>keys = [''stale''], vals = [(''stale'', ''Old'')], lastUpdate = 0\<rparr>,
         notifications = []\<rparr>"]
  have stale: "(300001::int) - lastUpdate (translationCache
       \<lparr>translationCache = \<lparr>keys = [''stale''], vals = [(''stale'', ''Old'')], lastUpdate = 0\<rparr>,
        notifications = []\<rparr>) > 300000"
    by simp
  have not_stale: "(300000::int) - lastUpdate (translationCache
       \<lparr>translationCache = \<lparr>keys = [''stale''], vals = [(''stale'', ''Old'')], lastUpdate = 0\<rparr>,
        notifications = []\<rparr>) \<le> 300000"
    by simp
  from inst stale have rebuilt: "lastUpdate (translationCache (snd (provideCompletionItems
        (\<lambda>a b. 0) 300001 300002
        (Inr [(''en.json'', RegularFile (Inr (JObj [(''fresh'', JStr ''New'')])))])
        \<lparr>linePrefix = ''t('' @ [CHR 0x22], currentWord = [],
         activeDocument = Some (''t('' @ [CHR 0x22], ''t('' @ [CHR 0x22])\<rparr>
        \<lparr>translationCache =
           \<lparr>keys = [''stale''], vals = [(''stale'', ''Old'')], lastUpdate = 0\<rparr>,
         notifications = []\<rparr>))) = 300002"
    by blast
  from inst not_stale have "provideCompletionItems (\<lambda>a b. 0) 300000 300002
        (Inr [(''en.json'', RegularFile (Inr (JObj [(''fresh'', JStr ''New'')])))])
        \<lparr>linePrefix = ''t('' @ [CHR 0x22], currentWord = [],
         activeDocument = Some (''t('' @ [CHR 0x22], ''t('' @ [CHR 0x22])\<rparr>
        \<lparr>translationCache =
           \<lparr>keys = [''stale''], vals = [(''stale'', ''Old'')], lastUpdate = 0\<rparr>,
         notifications = []\<rparr>
      = (suggest (\<lambda>a b. 0) (translationCache \<lparr>translationCache =
           \<lparr>keys = [''stale''], vals = [(''stale'', ''Old'')], lastUpdate = 0\<rparr>,
         notifications = []\<rparr>)
          \<lparr>linePrefix = ''t('' @ [CHR 0x22], currentWord = [],
           activeDocument = Some (''t('' @ [CHR 0x22], ''t('' @ [CHR 0x22])\<rparr>,
         \<lparr>translationCache =
           \<lparr>keys = [''stale''], vals = [(''stale'', ''Old'')], lastUpdate = 0\<rparr>,
         notifications = []\<rparr>)"
    by blast
  then have "snd (provideCompletionItems (\<lambda>a b. 0) 300000 300002
        (Inr [(''en.json'', RegularFile (Inr (JObj [(''fresh'', JStr ''New'')])))])
        \<lparr>linePrefix = ''t('' @ [CHR 0x22], currentWord = [],
         activeDocument = Some (''t('' @ [CHR 0x22], ''t('' @ [CHR 0x22])\<rparr>
        \<lparr>translationCache =
           \<lparr>keys = [''stale''], vals = [(''stale'', ''Old'')], lastUpdate = 0\<rparr>,
         notifications = []\<rparr>)
     = \<lparr>translationCache =
           \<lparr>keys = [''stale''], vals = [(''stale'', ''Old'')], lastUpdate = 0\<rparr>,
         notifications = []\<rparr>"
    by (simp only: snd_conv)
  with stale not_stale rebuilt show ?thesis by blast
qed

end
